theory Spec2Isabelle
  imports Main "HOL-Library.Sublist" "HOL-Library.Char_ord"
begin

section \<open>JobBot: the batch runner of \<^verbatim>\<open>server/runner.mjs\<close>\<close>

text \<open>
  The runner drives one browser tab through a list of URLs, fills the application form
  found on each page and appends one row per URL to a CSV log.  The embedding keeps the
  source's functions and their order of effects.  JavaScript strings are \<^typ>\<open>string\<close>,
  the UTF-8 bytes that Node writes for them; an absent (\<^verbatim>\<open>undefined\<close>) value of
  the profile is \<^term>\<open>None\<close>.  Console output, the launch and the closing of the browser, and
  the reading of the profile from \<^verbatim>\<open>config/user.json\<close> are not part of the model: the
  runner is given the profile that \<^verbatim>\<open>loadUser\<close> has returned.
\<close>

subsection \<open>JavaScript values\<close>

definition truthy :: "string option \<Rightarrow> bool" where
  "truthy v = (case v of None \<Rightarrow> False | Some s \<Rightarrow> s \<noteq> [])"

text \<open>\<^verbatim>\<open>a || b\<close> on strings that may be absent.\<close>

definition js_or :: "string option \<Rightarrow> string option \<Rightarrow> string option" where
  "js_or a b = (if truthy a then a else b)"

text \<open>\<^verbatim>\<open>parts.join(sep)\<close>\<close>

fun join :: "string \<Rightarrow> string list \<Rightarrow> string" where
  "join sep [] = []"
| "join sep [x] = x"
| "join sep (x # y # ys) = x @ sep @ join sep (y # ys)"

subsection \<open>File management and logging\<close>

definition dquote :: char where "dquote = CHR 0x22"
definition comma :: char where "comma = CHR '',''"
definition newline :: char where "newline = CHR 0x0A"

definition csvHeader :: string where
  "csvHeader =
     ''version,timestamp_start,timestamp_end,status,company,job_title,source,url,resume_used,notes,job_id''
     @ [newline]"

text \<open>
  The log file \<^verbatim>\<open>output/applied.csv\<close>: \<^term>\<open>None\<close> while it does not exist, its content
  otherwise.  \<^verbatim>\<open>fs.access\<close> rejects exactly when the file is absent, and writes succeed.
\<close>

type_synonym csvfile = "string option"

definition ensureOutFiles :: "csvfile \<Rightarrow> csvfile" where
  "ensureOutFiles f = (case f of None \<Rightarrow> Some csvHeader | Some c \<Rightarrow> Some c)"

text \<open>\<^verbatim>\<open>fs.appendFile\<close> creates the file when it is absent.\<close>

definition appendFile :: "string \<Rightarrow> csvfile \<Rightarrow> csvfile" where
  "appendFile s f = (case f of None \<Rightarrow> Some s | Some c \<Rightarrow> Some (c @ s))"

text \<open>\<^verbatim>\<open>/[",\n]/.test(v)\<close> and \<^verbatim>\<open>v.replace(/"/g, '""')\<close>\<close>

definition needsQuoting :: "string \<Rightarrow> bool" where
  "needsQuoting v = list_ex (\<lambda>c. c = dquote \<or> c = comma \<or> c = newline) v"

definition doubleQuotes :: "string \<Rightarrow> string" where
  "doubleQuotes v = concat (map (\<lambda>c. if c = dquote then [dquote, dquote] else [c]) v)"

definition escapeCsvValue :: "string option \<Rightarrow> string" where
  "escapeCsvValue value =
     (let stringValue = (case value of None \<Rightarrow> [] | Some s \<Rightarrow> s)
      in if needsQuoting stringValue
         then [dquote] @ doubleQuotes stringValue @ [dquote]
         else stringValue)"

text \<open>The metadata of a posting, and the record of one processed URL that carries it.\<close>

record meta =
  company :: string
  title :: string
  source :: string

record row = meta +
  tsStart :: string
  tsEnd :: string
  status :: string
  url :: string
  resume :: string
  notes' :: string
  jobId :: string

text \<open>The eleven cells of a row, the format version \<^verbatim>\<open>1\<close> first.\<close>

definition rowCells :: "row \<Rightarrow> string list" where
  "rowCells r =
     [''1'', tsStart r, tsEnd r, status r, company r, title r, source r, url r,
      resume r, notes' r, jobId r]"

definition csvLine :: "row \<Rightarrow> string" where
  "csvLine r = join [comma] (map (\<lambda>c. escapeCsvValue (Some c)) (rowCells r)) @ [newline]"

definition appendCsv :: "row \<Rightarrow> csvfile \<Rightarrow> csvfile" where
  "appendCsv r f = appendFile (csvLine r) f"

subsection \<open>A reader for the log\<close>

text \<open>
  The reader is not part of the runner: it is the reading of comma-separated text that
  the log is meant for (RFC 4180, with the line breaks that readers accept).  Cells are
  separated by commas.  A record ends with a line break, which is a newline, a carriage
  return, or a carriage return followed by a newline.  A cell that starts with a double
  quote runs to the matching double quote, a doubled quote inside standing for one, and
  commas and line breaks inside being part of the cell.  A quote inside an unquoted
  cell, text after a closing quote and an unterminated quoted cell are errors.  An
  empty line is a record of one empty cell, as in the grammar of RFC 4180 (some readers
  skip such a line or return it without cells; the runner writes none).  The state
  \<open>AfterCR\<close> is the start of a record after a carriage return, where a newline belongs
  to the line break just read.
\<close>

definition carriageReturn :: char where "carriageReturn = CHR 0x0D"

datatype csv_state = FieldStart | InPlain | InQuoted | QuoteSeen | AfterCR

fun csv_read_from ::
  "csv_state \<Rightarrow> string \<Rightarrow> string list \<Rightarrow> string list list \<Rightarrow> string \<Rightarrow> string list list option"
where
  "csv_read_from st cur fs rs [] =
     (case st of
        InQuoted \<Rightarrow> None
      | FieldStart \<Rightarrow> if fs = [] then Some (rev rs) else Some (rev (rev ([] # fs) # rs))
      | AfterCR \<Rightarrow> if fs = [] then Some (rev rs) else Some (rev (rev ([] # fs) # rs))
      | _ \<Rightarrow> Some (rev (rev (rev cur # fs) # rs)))"
| "csv_read_from st cur fs rs (c # cs) =
     (case st of
        FieldStart \<Rightarrow>
          if c = dquote then csv_read_from InQuoted [] fs rs cs
          else if c = comma then csv_read_from FieldStart [] ([] # fs) rs cs
          else if c = newline then csv_read_from FieldStart [] [] (rev ([] # fs) # rs) cs
          else if c = carriageReturn then csv_read_from AfterCR [] [] (rev ([] # fs) # rs) cs
          else csv_read_from InPlain [c] fs rs cs
      | AfterCR \<Rightarrow>
          if c = newline then csv_read_from FieldStart [] fs rs cs
          else if c = dquote then csv_read_from InQuoted [] fs rs cs
          else if c = comma then csv_read_from FieldStart [] ([] # fs) rs cs
          else if c = carriageReturn then csv_read_from AfterCR [] [] (rev ([] # fs) # rs) cs
          else csv_read_from InPlain [c] fs rs cs
      | InPlain \<Rightarrow>
          if c = dquote then None
          else if c = comma then csv_read_from FieldStart [] (rev cur # fs) rs cs
          else if c = newline then csv_read_from FieldStart [] [] (rev (rev cur # fs) # rs) cs
          else if c = carriageReturn then csv_read_from AfterCR [] [] (rev (rev cur # fs) # rs) cs
          else csv_read_from InPlain (c # cur) fs rs cs
      | InQuoted \<Rightarrow>
          if c = dquote then csv_read_from QuoteSeen cur fs rs cs
          else csv_read_from InQuoted (c # cur) fs rs cs
      | QuoteSeen \<Rightarrow>
          if c = dquote then csv_read_from InQuoted (dquote # cur) fs rs cs
          else if c = comma then csv_read_from FieldStart [] (rev cur # fs) rs cs
          else if c = newline then csv_read_from FieldStart [] [] (rev (rev cur # fs) # rs) cs
          else if c = carriageReturn then csv_read_from AfterCR [] [] (rev (rev cur # fs) # rs) cs
          else None)"

definition csv_read :: "string \<Rightarrow> string list list option" where
  "csv_read s = csv_read_from FieldStart [] [] [] s"

definition headerCells :: "string list" where
  "headerCells =
     [''version'', ''timestamp_start'', ''timestamp_end'', ''status'', ''company'', ''job_title'',
      ''source'', ''url'', ''resume_used'', ''notes'', ''job_id'']"

text \<open>How many records of a log are header records.\<close>

definition headerRecords :: "string \<Rightarrow> nat" where
  "headerRecords c =
     (case csv_read c of None \<Rightarrow> 0 | Some rs \<Rightarrow> length (filter (\<lambda>r. r = headerCells) rs))"

text \<open>
  What one batch does to the log: the initialization, then one appended row for each
  URL, in order.
\<close>

definition logSession :: "row list \<Rightarrow> csvfile \<Rightarrow> csvfile" where
  "logSession rows f = fold appendCsv rows (ensureOutFiles f)"

text \<open>
  What reading \<open>n\<close> more cells can add to the records read, the latest first: the
  earliest of them continues the cells \<open>fs\<close> (the latest first) with at most \<open>n\<close> cells
  more, the others have at most \<open>n\<close> cells.
\<close>

definition completes :: "string list \<Rightarrow> nat \<Rightarrow> string list list \<Rightarrow> bool" where
  "completes fs n new =
     (new \<noteq> [] \<and> prefix (rev fs) (last new) \<and> length (last new) \<le> length fs + n
      \<and> list_all (\<lambda>r. length r \<le> n) (butlast new))"


subsection \<open>The automation driver\<close>

text \<open>
  The browser is reached only through the driver's calls.  The model records every call
  in the order it is issued; the \<^emph>\<open>page\<close> says, for the calls issued so far, what the next
  call returns or that it rejects.  A rejected call is the exception the source catches.
  An exception is its message; a thrown value without a message has the empty one.
\<close>

datatype exn = Error (message: string)

datatype locator =
    Locator string
  | GetByLabel string
  | GetByRole string string
  | SubRole locator string string
  | First locator

datatype script = MetaScript | FieldCountScript | DebugFieldsScript | BannerScript string

datatype call =
    Goto string
  | WaitForTimeout nat
  | WaitForClose
  | Evaluate script
  | PageUrl
  | Count locator
  | IsVisible locator
  | Fill locator string
  | SelectLabel locator string
  | SelectValue locator string
  | PressSequentially locator string
  | Check locator
  | Click locator
  | SetInputFiles locator string

text \<open>What the metadata script reads from the document.\<close>

record element =
  content :: "string option"
  innerText :: "string option"

datatype ld_item = NullItem | LdItem (ld_type: "string option") (org_name: "string option")

datatype ld_script = InvalidJson | LdItems "ld_item list"

record document =
  ogTitleEl :: "element option"
  twitterTitleEl :: "element option"
  h1InnerText :: "string option"
  documentTitle :: string
  siteNameEl :: "element option"
  jsonLdScripts :: "ld_script list"

text \<open>
  The controls of the document are numbered in document order.  For the calls issued so
  far, the page says which controls a locator matches, in document order, and which
  controls are visible.
\<close>

type_synonym control = nat

record page =
  elements_of :: "call list \<Rightarrow> locator \<Rightarrow> control list"
  shown :: "call list \<Rightarrow> control \<Rightarrow> bool"
  rejects :: "call list \<Rightarrow> call \<Rightarrow> exn option"
  document_of :: "call list \<Rightarrow> exn + document"
  hostname_of :: "call list \<Rightarrow> exn + string"
  field_count_of :: "call list \<Rightarrow> exn + nat"
  took_ms :: "call list \<Rightarrow> call \<Rightarrow> nat"

text \<open>
  \<^verbatim>\<open>locator.first()\<close> is the first match.  An action through a locator, and
  \<^verbatim>\<open>page.fill(selector, value)\<close>, act on the first control that the locator matches.
\<close>

fun resolve :: "page \<Rightarrow> call list \<Rightarrow> locator \<Rightarrow> control list" where
  "resolve p t (First l) = take 1 (resolve p t l)"
| "resolve p t (Locator s) = elements_of p t (Locator s)"
| "resolve p t (GetByLabel s) = elements_of p t (GetByLabel s)"
| "resolve p t (GetByRole r n) = elements_of p t (GetByRole r n)"
| "resolve p t (SubRole l r n) = elements_of p t (SubRole l r n)"

definition actsOn :: "page \<Rightarrow> call list \<Rightarrow> locator \<Rightarrow> control option" where
  "actsOn p t l = (case resolve p t l of [] \<Rightarrow> None | c # cs \<Rightarrow> Some c)"

text \<open>
  What \<^verbatim>\<open>locator.count()\<close> and \<^verbatim>\<open>locator.isVisible()\<close> answer when they do not reject:
  the number of matches, and whether the first match is visible, which is false when
  there is no match (the runner asks it of \<^verbatim>\<open>first()\<close> locators only).
\<close>

definition count_of :: "page \<Rightarrow> call list \<Rightarrow> locator \<Rightarrow> exn + nat" where
  "count_of p t l =
     (case rejects p t (Count l) of
        Some e \<Rightarrow> Inl e
      | None \<Rightarrow> Inr (length (resolve p t l)))"

definition visible_of :: "page \<Rightarrow> call list \<Rightarrow> locator \<Rightarrow> exn + bool" where
  "visible_of p t l =
     (case rejects p t (IsVisible l) of
        Some e \<Rightarrow> Inl e
      | None \<Rightarrow> Inr (case actsOn p t l of None \<Rightarrow> False | Some c \<Rightarrow> shown p t c))"

text \<open>The calls \<^verbatim>\<open>locator.count()\<close> and \<^verbatim>\<open>locator.isVisible()\<close>, and the calls that return nothing.\<close>

definition count :: "page \<Rightarrow> locator \<Rightarrow> call list \<Rightarrow> (exn + nat) \<times> call list" where
  "count p l t = (count_of p t l, t @ [Count l])"

definition isVisible :: "page \<Rightarrow> locator \<Rightarrow> call list \<Rightarrow> (exn + bool) \<times> call list" where
  "isVisible p l t = (visible_of p t l, t @ [IsVisible l])"

definition perform :: "page \<Rightarrow> call \<Rightarrow> call list \<Rightarrow> exn option \<times> call list" where
  "perform p c t = (rejects p t c, t @ [c])"

text \<open>The calls that change the page: everything but the queries and the waits.\<close>

fun is_write :: "call \<Rightarrow> bool" where
  "is_write (Fill l v) = True"
| "is_write (SelectLabel l v) = True"
| "is_write (SelectValue l v) = True"
| "is_write (PressSequentially l v) = True"
| "is_write (Check l) = True"
| "is_write (Click l) = True"
| "is_write (SetInputFiles l v) = True"
| "is_write c = False"

text \<open>The writing calls issued after the calls \<open>t\<close>, when the calls have grown to \<open>t'\<close>.\<close>

definition writesSince :: "call list \<Rightarrow> call list \<Rightarrow> call list" where
  "writesSince t t' = filter is_write (drop (length t) t')"





subsection \<open>Page metadata extraction\<close>

definition getContent :: "element option \<Rightarrow> string option" where
  "getContent el =
     (case el of None \<Rightarrow> None | Some e \<Rightarrow> js_or (content e) (js_or (innerText e) None))"

text \<open>
  \<^verbatim>\<open>trim\<close> removes the white space and the line terminators of ECMAScript from both
  ends: U+0009 to U+000D, U+0020, U+00A0, U+1680, U+2000 to U+200A, U+2028, U+2029, U+202F,
  U+205F, U+3000 and U+FEFF, here as their UTF-8 bytes.
\<close>

definition whiteSpace :: "string list" where
  "whiteSpace =
     [[CHR 0x09], [CHR 0x0A], [CHR 0x0B], [CHR 0x0C], [CHR 0x0D], [CHR 0x20],
      [CHR 0xC2, CHR 0xA0],
      [CHR 0xE1, CHR 0x9A, CHR 0x80],
      [CHR 0xE2, CHR 0x80, CHR 0x80], [CHR 0xE2, CHR 0x80, CHR 0x81],
      [CHR 0xE2, CHR 0x80, CHR 0x82], [CHR 0xE2, CHR 0x80, CHR 0x83],
      [CHR 0xE2, CHR 0x80, CHR 0x84], [CHR 0xE2, CHR 0x80, CHR 0x85],
      [CHR 0xE2, CHR 0x80, CHR 0x86], [CHR 0xE2, CHR 0x80, CHR 0x87],
      [CHR 0xE2, CHR 0x80, CHR 0x88], [CHR 0xE2, CHR 0x80, CHR 0x89],
      [CHR 0xE2, CHR 0x80, CHR 0x8A],
      [CHR 0xE2, CHR 0x80, CHR 0xA8], [CHR 0xE2, CHR 0x80, CHR 0xA9],
      [CHR 0xE2, CHR 0x80, CHR 0xAF],
      [CHR 0xE2, CHR 0x81, CHR 0x9F],
      [CHR 0xE3, CHR 0x80, CHR 0x80],
      [CHR 0xEF, CHR 0xBB, CHR 0xBF]]"

text \<open>Removes from the start of \<open>s\<close>, as long as there is one, a string of \<open>ws\<close>.\<close>

function dropLeading :: "string list \<Rightarrow> string \<Rightarrow> string" where
  "dropLeading ws s =
     (case find (\<lambda>w. w \<noteq> [] \<and> prefix w s) ws of
        None \<Rightarrow> s
      | Some w \<Rightarrow> dropLeading ws (drop (length w) s))"
  by pat_completeness auto
termination
proof (relation "measure (\<lambda>(ws, s). length s)")
  show "wf (measure (\<lambda>(ws, s). length s))" by simp
next
  fix ws :: "string list" and s w :: string
  assume "find (\<lambda>w. w \<noteq> [] \<and> prefix w s) ws = Some w"
  then have "w \<noteq> []" "prefix w s" by (auto simp: find_Some_iff)
  then have "length (drop (length w) s) < length s"
    by (cases s) (auto simp: prefix_def)
  then show "((ws, drop (length w) s), (ws, s)) \<in> measure (\<lambda>(ws, s). length s)" by simp
qed

declare dropLeading.simps [simp del]

definition trim :: "string \<Rightarrow> string" where
  "trim s = rev (dropLeading (map rev whiteSpace) (rev (dropLeading whiteSpace s)))"

text \<open>
  \<^verbatim>\<open>slice(0, n)\<close> keeps the first \<open>n\<close> UTF-16 code units.  A character of one to three
  UTF-8 bytes is one code unit and a character of four bytes is two, a surrogate pair.
  When the cut falls inside a pair, the string ends with an unpaired surrogate, which
  Node writes to the log as U+FFFD and which is U+FFFD here.
\<close>

definition sequenceLength :: "char \<Rightarrow> nat" where
  "sequenceLength c =
     (if of_char c < (0xC0 :: nat) then 1
      else if of_char c < (0xE0 :: nat) then 2
      else if of_char c < (0xF0 :: nat) then 3 else 4)"

definition replacementCharacter :: string where
  "replacementCharacter = [CHR 0xEF, CHR 0xBF, CHR 0xBD]"

function sliceTo :: "nat \<Rightarrow> string \<Rightarrow> string" where
  "sliceTo n s =
     (case s of
        [] \<Rightarrow> []
      | c # cs \<Rightarrow>
          if n = 0 then []
          else if sequenceLength c < 4
               then take (sequenceLength c) s @ sliceTo (n - 1) (drop (sequenceLength c) s)
          else if n = 1 then replacementCharacter
          else take 4 s @ sliceTo (n - 2) (drop 4 s))"
  by pat_completeness auto
termination
  by (relation "measure (\<lambda>(n, s). length s)") (auto simp: sequenceLength_def)

declare sliceTo.simps [simp del]

text \<open>
  The items of one JSON-LD script: \<^term>\<open>None\<close> when reading an item throws (a
  \<^verbatim>\<open>null\<close> item), which abandons that script.
\<close>

fun findJobPosting :: "ld_item list \<Rightarrow> string option option" where
  "findJobPosting [] = Some None"
| "findJobPosting (NullItem # items) = None"
| "findJobPosting (LdItem ty org # items) =
     (if ty = Some ''JobPosting'' \<and> truthy org then Some org else findJobPosting items)"

fun companyFromScripts :: "ld_script list \<Rightarrow> string option" where
  "companyFromScripts [] = None"
| "companyFromScripts (InvalidJson # ss) = companyFromScripts ss"
| "companyFromScripts (LdItems items # ss) =
     (case findJobPosting items of
        Some (Some c) \<Rightarrow> Some c
      | _ \<Rightarrow> companyFromScripts ss)"

record pageData =
  pd_title :: string
  pd_siteName :: "string option"
  pd_company :: "string option"

definition metaScript :: "document \<Rightarrow> pageData" where
  "metaScript d =
     (let ogTitle = getContent (ogTitleEl d);
          twitterTitle = getContent (twitterTitleEl d);
          h1Title = js_or (h1InnerText d) None;
          pageTitle = js_or (Some (documentTitle d)) (Some []);
          t = (case js_or ogTitle (js_or twitterTitle (js_or h1Title pageTitle)) of
                 None \<Rightarrow> [] | Some s \<Rightarrow> s)
      in \<lparr>pd_title = sliceTo 160 (trim t),
          pd_siteName = getContent (siteNameEl d),
          pd_company = companyFromScripts (jsonLdScripts d)\<rparr>)"

definition sourceMap :: "(string \<times> string) list" where
  "sourceMap =
     [(''greenhouse.io'', ''Greenhouse''),
      (''lever.co'', ''Lever''),
      (''myworkdayjobs'', ''Workday''),
      (''personio'', ''Personio''),
      (''join.com'', ''Personio''),
      (''smartrecruiters'', ''SmartRecruiters''),
      (''linkedin.com'', ''LinkedIn'')]"

text \<open>\<^verbatim>\<open>hostname.includes(domain)\<close> is \<^term>\<open>sublist domain hostname\<close>.\<close>

definition getJobBoardSource :: "string \<Rightarrow> string" where
  "getJobBoardSource hostname =
     (case find (\<lambda>(domain, src). sublist domain hostname) sourceMap of
        Some (domain, src) \<Rightarrow> src
      | None \<Rightarrow> ''Other'')"

definition stripWww :: "string \<Rightarrow> string" where
  "stripWww h = (if prefix ''www.'' h then drop 4 h else h)"

definition defaultMeta :: meta where
  "defaultMeta = \<lparr>company = [], title = [], source = ''Other''\<rparr>"

text \<open>The body of the \<^verbatim>\<open>try\<close> block of \<^verbatim>\<open>extractMeta\<close>, and the function with its \<^verbatim>\<open>catch\<close>.\<close>

definition extractMeta_try :: "page \<Rightarrow> call list \<Rightarrow> (exn + meta) \<times> call list" where
  "extractMeta_try p t =
     (let t1 = t @ [Evaluate MetaScript] in
      case document_of p t of
        Inl e \<Rightarrow> (Inl e, t1)
      | Inr d \<Rightarrow>
          (let pageData = metaScript d; t2 = t1 @ [PageUrl] in
           case hostname_of p t1 of
             Inl e \<Rightarrow> (Inl e, t2)
           | Inr hostname \<Rightarrow>
               (Inr \<lparr>company =
                       (case js_or (pd_company pageData)
                               (js_or (pd_siteName pageData) (Some (stripWww hostname))) of
                          None \<Rightarrow> [] | Some c \<Rightarrow> c),
                     title = pd_title pageData,
                     source = getJobBoardSource hostname\<rparr>, t2)))"

definition extractMeta :: "page \<Rightarrow> call list \<Rightarrow> meta \<times> call list" where
  "extractMeta p t =
     (case extractMeta_try p t of
        (Inl e, t') \<Rightarrow> (defaultMeta, t')
      | (Inr m, t') \<Rightarrow> (m, t'))"


subsection \<open>Form filling helpers\<close>

text \<open>
  Each helper takes the calls issued so far and returns its result with the calls
  extended.  The \<^verbatim>\<open>fieldName\<close> argument of the source only feeds the console and is
  left out.  A loop over labels or selectors is a recursion over the list; the
  \<^verbatim>\<open>catch\<close> of each round moves on to the next entry.
\<close>

fun fillFirst :: "page \<Rightarrow> (string \<Rightarrow> locator) \<Rightarrow> string list \<Rightarrow> string \<Rightarrow> call list \<Rightarrow> bool \<times> call list" where
  "fillFirst p loc [] v t = (False, t)"
| "fillFirst p loc (l # ls) v t =
     (case count p (loc l) t of
        (Inl e, t1) \<Rightarrow> fillFirst p loc ls v t1
      | (Inr n, t1) \<Rightarrow>
          if n = 0 then fillFirst p loc ls v t1
          else (case perform p (Fill (First (loc l)) v) t1 of
                  (None, t2) \<Rightarrow> (True, t2)
                | (Some e, t2) \<Rightarrow> fillFirst p loc ls v t2))"

definition fillTextByLabel :: "page \<Rightarrow> string list \<Rightarrow> string option \<Rightarrow> call list \<Rightarrow> bool \<times> call list" where
  "fillTextByLabel p labels value t =
     (case value of
        None \<Rightarrow> (False, t)
      | Some v \<Rightarrow>
          if v = [] then (False, t)
          else (case fillFirst p GetByLabel labels v t of
                  (True, t1) \<Rightarrow> (True, t1)
                | (False, t1) \<Rightarrow> fillFirst p (GetByRole ''textbox'') labels v t1))"



text \<open>\<^verbatim>\<open>radio.check().catch(async () => await radio.click())\<close>\<close>

definition checkOrClick :: "page \<Rightarrow> locator \<Rightarrow> call list \<Rightarrow> exn option \<times> call list" where
  "checkOrClick p radio t =
     (case perform p (Check radio) t of
        (None, t1) \<Rightarrow> (None, t1)
      | (Some e, t1) \<Rightarrow> perform p (Click radio) t1)"

fun clickRadioInGroups :: "page \<Rightarrow> string list \<Rightarrow> string \<Rightarrow> call list \<Rightarrow> bool \<times> call list" where
  "clickRadioInGroups p [] optionText t = (False, t)"
| "clickRadioInGroups p (groupLabel # ls) optionText t =
     (case count p (GetByRole ''group'' groupLabel) t of
        (Inl e, t1) \<Rightarrow> clickRadioInGroups p ls optionText t1
      | (Inr n, t1) \<Rightarrow>
          if n = 0 then clickRadioInGroups p ls optionText t1
          else (case count p (First (SubRole (GetByRole ''group'' groupLabel) ''radio'' optionText)) t1 of
                  (Inl e, t2) \<Rightarrow> clickRadioInGroups p ls optionText t2
                | (Inr m, t2) \<Rightarrow>
                    if m = 0 then clickRadioInGroups p ls optionText t2
                    else (case checkOrClick p
                                 (First (SubRole (GetByRole ''group'' groupLabel) ''radio'' optionText)) t2 of
                            (None, t3) \<Rightarrow> (True, t3)
                          | (Some e, t3) \<Rightarrow> clickRadioInGroups p ls optionText t3)))"

definition clickRadioByLabel :: "page \<Rightarrow> string list \<Rightarrow> string option \<Rightarrow> call list \<Rightarrow> bool \<times> call list" where
  "clickRadioByLabel p labels optionText t =
     (case optionText of
        None \<Rightarrow> (False, t)
      | Some opt \<Rightarrow>
          if opt = [] then (False, t)
          else (case clickRadioInGroups p labels opt t of
                  (True, t1) \<Rightarrow> (True, t1)
                | (False, t1) \<Rightarrow>
                    (case count p (First (GetByRole ''radio'' opt)) t1 of
                       (Inl e, t2) \<Rightarrow> (False, t2)
                     | (Inr n, t2) \<Rightarrow>
                         if n = 0 then (False, t2)
                         else (case checkOrClick p (First (GetByRole ''radio'' opt)) t2 of
                                 (None, t3) \<Rightarrow> (True, t3)
                               | (Some e, t3) \<Rightarrow> (False, t3)))))"

text \<open>Select by visible label, else by value, else type the value into the control.\<close>

definition selectOrFill :: "page \<Rightarrow> locator \<Rightarrow> string \<Rightarrow> call list \<Rightarrow> exn option \<times> call list" where
  "selectOrFill p el v t =
     (case perform p (SelectLabel el v) t of
        (None, t1) \<Rightarrow> (None, t1)
      | (Some e, t1) \<Rightarrow>
          (case perform p (SelectValue el v) t1 of
             (None, t2) \<Rightarrow> (None, t2)
           | (Some e', t2) \<Rightarrow> perform p (Fill el v) t2))"

fun selectFirst :: "page \<Rightarrow> string list \<Rightarrow> string \<Rightarrow> call list \<Rightarrow> bool \<times> call list" where
  "selectFirst p [] v t = (False, t)"
| "selectFirst p (l # ls) v t =
     (case count p (GetByLabel l) t of
        (Inl e, t1) \<Rightarrow> selectFirst p ls v t1
      | (Inr n, t1) \<Rightarrow>
          if n = 0 then selectFirst p ls v t1
          else (case selectOrFill p (First (GetByLabel l)) v t1 of
                  (None, t2) \<Rightarrow> (True, t2)
                | (Some e, t2) \<Rightarrow> selectFirst p ls v t2))"

text \<open>\<^verbatim>\<open>element.fill(value).catch(async () => await element.pressSequentially(value))\<close>\<close>

definition fillOrType :: "page \<Rightarrow> locator \<Rightarrow> string \<Rightarrow> call list \<Rightarrow> exn option \<times> call list" where
  "fillOrType p el v t =
     (case perform p (Fill el v) t of
        (None, t1) \<Rightarrow> (None, t1)
      | (Some e, t1) \<Rightarrow> perform p (PressSequentially el v) t1)"

fun typeIntoCombobox :: "page \<Rightarrow> string list \<Rightarrow> string \<Rightarrow> call list \<Rightarrow> bool \<times> call list" where
  "typeIntoCombobox p [] v t = (False, t)"
| "typeIntoCombobox p (l # ls) v t =
     (case count p (GetByRole ''combobox'' l) t of
        (Inl e, t1) \<Rightarrow> typeIntoCombobox p ls v t1
      | (Inr n, t1) \<Rightarrow>
          if n = 0 then typeIntoCombobox p ls v t1
          else (case fillOrType p (First (GetByRole ''combobox'' l)) v t1 of
                  (None, t2) \<Rightarrow> (True, t2)
                | (Some e, t2) \<Rightarrow> typeIntoCombobox p ls v t2))"

definition selectByLabel :: "page \<Rightarrow> string list \<Rightarrow> string option \<Rightarrow> call list \<Rightarrow> bool \<times> call list" where
  "selectByLabel p labels value t =
     (case value of
        None \<Rightarrow> (False, t)
      | Some v \<Rightarrow>
          if v = [] then (False, t)
          else (case selectFirst p labels v t of
                  (True, t1) \<Rightarrow> (True, t1)
                | (False, t1) \<Rightarrow> typeIntoCombobox p labels v t1))"

fun setFileFirst :: "page \<Rightarrow> string list \<Rightarrow> string \<Rightarrow> call list \<Rightarrow> bool \<times> call list" where
  "setFileFirst p [] filePath t = (False, t)"
| "setFileFirst p (l # ls) filePath t =
     (case count p (GetByLabel l) t of
        (Inl e, t1) \<Rightarrow> setFileFirst p ls filePath t1
      | (Inr n, t1) \<Rightarrow>
          if n = 0 then setFileFirst p ls filePath t1
          else (case perform p (SetInputFiles (First (GetByLabel l)) filePath) t1 of
                  (None, t2) \<Rightarrow> (True, t2)
                | (Some e, t2) \<Rightarrow> setFileFirst p ls filePath t2))"

definition setFileByLabel :: "page \<Rightarrow> string list \<Rightarrow> string option \<Rightarrow> call list \<Rightarrow> bool \<times> call list" where
  "setFileByLabel p labels filePath t =
     (case filePath of
        None \<Rightarrow> (False, t)
      | Some f \<Rightarrow>
          if f = [] then (False, t)
          else (case setFileFirst p labels f t of
                  (True, t1) \<Rightarrow> (True, t1)
                | (False, t1) \<Rightarrow>
                    (case count p (Locator ''input[type=file]'') t1 of
                       (Inl e, t2) \<Rightarrow> (False, t2)
                     | (Inr n, t2) \<Rightarrow>
                         if n = 0 then (False, t2)
                         else (case perform p (SetInputFiles (First (Locator ''input[type=file]'')) f) t2 of
                                 (None, t3) \<Rightarrow> (True, t3)
                               | (Some e, t3) \<Rightarrow> (False, t3)))))"

text \<open>\<^verbatim>\<open>locator.isVisible().catch(() => true)\<close>\<close>

definition visibleOrTrue :: "page \<Rightarrow> locator \<Rightarrow> call list \<Rightarrow> bool \<times> call list" where
  "visibleOrTrue p l t =
     (case isVisible p l t of (Inl e, t1) \<Rightarrow> (True, t1) | (Inr b, t1) \<Rightarrow> (b, t1))"

fun findFirstVisibleSelector :: "page \<Rightarrow> string list \<Rightarrow> call list \<Rightarrow> string option \<times> call list" where
  "findFirstVisibleSelector p [] t = (None, t)"
| "findFirstVisibleSelector p (selector # ss) t =
     (case count p (First (Locator selector)) t of
        (Inl e, t1) \<Rightarrow> findFirstVisibleSelector p ss t1
      | (Inr n, t1) \<Rightarrow>
          if n = 0 then findFirstVisibleSelector p ss t1
          else (case visibleOrTrue p (First (Locator selector)) t1 of
                  (True, t2) \<Rightarrow> (Some selector, t2)
                | (False, t2) \<Rightarrow> findFirstVisibleSelector p ss t2))"




text \<open>
  One round of \<^verbatim>\<open>fillGenericField\<close>, the same for a structural selector and for
  the nearby-text locator: the first match is filled when it exists and is visible.
\<close>

definition fillIfVisible :: "page \<Rightarrow> locator \<Rightarrow> string \<Rightarrow> call list \<Rightarrow> bool \<times> call list" where
  "fillIfVisible p l v t =
     (case count p l t of
        (Inl e, t1) \<Rightarrow> (False, t1)
      | (Inr n, t1) \<Rightarrow>
          if n = 0 then (False, t1)
          else (case visibleOrTrue p l t1 of
                  (False, t2) \<Rightarrow> (False, t2)
                | (True, t2) \<Rightarrow>
                    (case perform p (Fill l v) t2 of
                       (None, t3) \<Rightarrow> (True, t3)
                     | (Some e, t3) \<Rightarrow> (False, t3))))"

fun fillBySelectors :: "page \<Rightarrow> string list \<Rightarrow> string \<Rightarrow> call list \<Rightarrow> bool \<times> call list" where
  "fillBySelectors p [] v t = (False, t)"
| "fillBySelectors p (selector # ss) v t =
     (case fillIfVisible p (First (Locator selector)) v t of
        (True, t1) \<Rightarrow> (True, t1)
      | (False, t1) \<Rightarrow> fillBySelectors p ss v t1)"


subsection \<open>Field label registry and field selectors\<close>

definition FIELD_LABELS_firstName :: "string list" where
  "FIELD_LABELS_firstName =
     [''First name'', ''Given name'', ''Vorname'', ''Pr'' @ [CHR 0xC3, CHR 0xA9] @ ''nom'',
      ''First Name'', ''Firstname'']"

definition FIELD_LABELS_lastName :: "string list" where
  "FIELD_LABELS_lastName =
     [''Last name'', ''Family name'', ''Surname'', ''Nachname'', ''Nom'', ''Last Name'', ''Lastname'']"

definition FIELD_LABELS_fullName :: "string list" where
  "FIELD_LABELS_fullName = [''Full name'', ''Your full name'', ''Name (full)'', ''Full Name'', ''Name'']"

definition FIELD_LABELS_phone :: "string list" where
  "FIELD_LABELS_phone =
     [''Phone'', ''Phone number'', ''Telefon'',
      ''T'' @ [CHR 0xC3, CHR 0xA9] @ ''l'' @ [CHR 0xC3, CHR 0xA9] @ ''phone'',
      ''Phone Number'', ''Mobile'', ''Telephone'']"

definition FIELD_LABELS_email :: "string list" where
  "FIELD_LABELS_email =
     [''Email'', ''E-mail'', ''Email address'', ''E-Mail'', ''E-mail address'', ''Email Address'']"

definition FIELD_LABELS_gender :: "string list" where
  "FIELD_LABELS_gender = [''Gender'', ''Gender to which you identify as'', ''Geschlecht'']"

definition FIELD_LABELS_personalUrl :: "string list" where
  "FIELD_LABELS_personalUrl =
     [''Personal URL'', ''Website'', ''Portfolio'', ''Personal site'', ''Homepage'', ''Website URL'']"

definition FIELD_LABELS_cv :: "string list" where
  "FIELD_LABELS_cv =
     [''Curriculum vitae'', ''CV'', ''Resume'', ''Lebenslauf'', ''Resume/CV'', ''Cover Letter'']"

definition FIELD_LABELS_country :: "string list" where
  "FIELD_LABELS_country =
     [''What country do you currently live in'', ''Country'', ''Current country'', ''Location'']"

definition FIELD_LABELS_tax :: "string list" where
  "FIELD_LABELS_tax = [''Tax residence'', ''Where is your tax residence'']"

definition FIELD_LABELS_notice :: "string list" where
  "FIELD_LABELS_notice = [''Notice period'', ''What is your notice period'']"

definition FIELD_LABELS_salary :: "string list" where
  "FIELD_LABELS_salary =
     [''Salary expectations'', ''What are your salary expectations'', ''Salary (EUR)'',
      ''Expected salary'', ''Salary'']"

definition FIELD_LABELS_referred :: "string list" where
  "FIELD_LABELS_referred = [''Were you referred'', ''Referral'', ''Referred by'']"

definition FIELD_LABELS_linkedin :: "string list" where
  "FIELD_LABELS_linkedin = [''LinkedIn'', ''LinkedIn profile'', ''LinkedIn URL'', ''LinkedIn Profile'']"

definition FIELD_LABELS_github :: "string list" where
  "FIELD_LABELS_github =
     [''GitHub'', ''GitHub profile'', ''GitHub URL'', ''GitHub Profile'', ''Github'', ''Github profile'']"

definition FIRST_NAME_SELECTORS :: "string list" where
  \<open>FIRST_NAME_SELECTORS =
     [''input[name*=first i]'', ''input[id*=first i]'', ''input[placeholder*=first i]'',
      ''input[name*="firstName"]'', ''input[id*="firstName"]'',
      ''input[name*="first_name"]'', ''input[id*="first_name"]'']\<close>

definition LAST_NAME_SELECTORS :: "string list" where
  \<open>LAST_NAME_SELECTORS =
     [''input[name*=last i]'', ''input[id*=last i]'', ''input[placeholder*=last i]'',
      ''input[name*="lastName"]'', ''input[id*="lastName"]'',
      ''input[name*="last_name"]'', ''input[id*="last_name"]'']\<close>

definition FULL_NAME_SELECTORS :: "string list" where
  \<open>FULL_NAME_SELECTORS =
     [''input[autocomplete="name"]'',
      ''input[name="fullName"]'', ''input[id="fullName"]'',
      ''input[name="fullname"]'', ''input[id="fullname"]'',
      ''input[placeholder*="full name" i]'',
      ''input[aria-label*="full name" i]'',
      ''input[name*="full_name"]'', ''input[id*="full_name"]'']\<close>

definition attributeSelectors :: "string \<Rightarrow> string list" where
  \<open>attributeSelectors x =
     [''input[name*="'' @ x @ ''" i]'',
      ''input[id*="'' @ x @ ''" i]'',
      ''input[placeholder*="'' @ x @ ''" i]'',
      ''input[data-field*="'' @ x @ ''" i]'',
      ''input[data-name*="'' @ x @ ''" i]'']\<close>

definition generateFieldSelectors :: "string \<Rightarrow> string list \<Rightarrow> string list" where
  "generateFieldSelectors fieldType variations =
     attributeSelectors fieldType @ concat (map attributeSelectors variations)"

definition GENERIC_SELECTORS :: "(string \<times> string list) list" where
  \<open>GENERIC_SELECTORS =
     [(''email'', ''input[type="email"]'' # generateFieldSelectors ''email'' []),
      (''phone'', ''input[type="tel"]'' # generateFieldSelectors ''phone'' [''mobile'', ''telephone'']),
      (''salary'', generateFieldSelectors ''salary'' []
                   @ [''select[name*="salary" i]'', ''select[id*="salary" i]'']),
      (''linkedin'', generateFieldSelectors ''linkedin''
                       [''linked_in'', ''social_linkedin'', ''profile_linkedin'', ''url_linkedin'']),
      (''github'', generateFieldSelectors ''github''
                     [''git_hub'', ''social_github'', ''profile_github'', ''url_github'']),
      (''website'', generateFieldSelectors ''website'' [''portfolio'', ''url'', ''homepage'']),
      (''twitter'', generateFieldSelectors ''twitter''
                      [''social_twitter'', ''profile_twitter'', ''url_twitter'']),
      (''facebook'', generateFieldSelectors ''facebook''
                       [''social_facebook'', ''profile_facebook'', ''url_facebook'']),
      (''instagram'', generateFieldSelectors ''instagram''
                        [''social_instagram'', ''profile_instagram'', ''url_instagram'']),
      (''experience'', generateFieldSelectors ''experience''
                         [''work_experience'', ''job_experience'', ''professional_experience'']),
      (''education'', generateFieldSelectors ''education''
                        [''educational_background'', ''academic_background'']),
      (''skills'', generateFieldSelectors ''skills''
                     [''technical_skills'', ''professional_skills'', ''competencies''])]\<close>

text \<open>\<^verbatim>\<open>GENERIC_SELECTORS[fieldType] || []\<close>; the runner passes keys of the table only.\<close>

definition selectorsOf :: "string \<Rightarrow> string list" where
  "selectorsOf fieldType = (case map_of GENERIC_SELECTORS fieldType of None \<Rightarrow> [] | Some ss \<Rightarrow> ss)"

text \<open>
  \<^verbatim>\<open>toLowerCase\<close> on the letters of ASCII; the field types that reach it are the keys of
  the table, which have no other letters.
\<close>

definition toLowerCase :: "string \<Rightarrow> string" where
  "toLowerCase s =
     map (\<lambda>c. if CHR ''A'' \<le> c \<and> c \<le> CHR ''Z'' then char_of (of_char c + (32::nat)) else c) s"

definition nearbyText :: "string \<Rightarrow> locator" where
  "nearbyText fieldType = First (Locator (''text='' @ toLowerCase fieldType @ '' >> .. >> input''))"

definition fillGenericField :: "page \<Rightarrow> string \<Rightarrow> string option \<Rightarrow> call list \<Rightarrow> bool \<times> call list" where
  "fillGenericField p fieldType value t =
     (case value of
        None \<Rightarrow> (False, t)
      | Some v \<Rightarrow>
          if v = [] then (False, t)
          else (case fillBySelectors p (selectorsOf fieldType) v t of
                  (True, t1) \<Rightarrow> (True, t1)
                | (False, t1) \<Rightarrow> fillIfVisible p (nearbyText fieldType) v t1))"




subsection \<open>Hold banner, form stability, field dump\<close>

definition showHoldBanner :: "page \<Rightarrow> string \<Rightarrow> call list \<Rightarrow> exn option \<times> call list" where
  "showHoldBanner p msg t = perform p (Evaluate (BannerScript msg)) t"

text \<open>
  The loop of \<^verbatim>\<open>waitForFormStability\<close>.  \<^term>\<open>elapsed\<close> is \<^verbatim>\<open>Date.now() - startTime\<close>
  at the loop test: time passes in the awaited calls only, a call taking what the page
  says (\<^term>\<open>took_ms\<close>) and the timer its 500 milliseconds on top.
\<close>

function waitForFormStability_loop ::
  "page \<Rightarrow> nat \<Rightarrow> nat \<Rightarrow> nat \<Rightarrow> nat \<Rightarrow> call list \<Rightarrow> (exn + bool) \<times> call list"
where
  "waitForFormStability_loop p maxWaitTime elapsed previousFieldCount stableCount t =
     (if elapsed < maxWaitTime then
        (let t1 = t @ [Evaluate FieldCountScript] in
         case field_count_of p t of
           Inl e \<Rightarrow> (Inl e, t1)
         | Inr currentFieldCount \<Rightarrow>
             if currentFieldCount = previousFieldCount \<and> stableCount + 1 \<ge> 3 then (Inr True, t1)
             else (case perform p (WaitForTimeout 500) t1 of
                     (Some e, t2) \<Rightarrow> (Inl e, t2)
                   | (None, t2) \<Rightarrow>
                       waitForFormStability_loop p maxWaitTime
                         (elapsed + took_ms p t (Evaluate FieldCountScript) + 500
                            + took_ms p t1 (WaitForTimeout 500))
                         currentFieldCount
                         (if currentFieldCount = previousFieldCount then stableCount + 1 else 0)
                         t2))
      else (Inr False, t))"
  by pat_completeness auto
termination
  by (relation "measure (\<lambda>(p, maxWaitTime, elapsed, rest). maxWaitTime - elapsed)")
     (auto simp: perform_def)

declare waitForFormStability_loop.simps [simp del]

definition waitForFormStability :: "page \<Rightarrow> nat \<Rightarrow> call list \<Rightarrow> (exn + bool) \<times> call list" where
  "waitForFormStability p maxWaitTime t = waitForFormStability_loop p maxWaitTime 0 0 0 t"

text \<open>
  The polls in words.  Poll \<open>i\<close> (from 0) matches when it reads the count of the poll
  before it, the count before the first poll being 0; the form is stable at poll \<open>k\<close>
  when polls \<open>k - 2\<close>, \<open>k - 1\<close> and \<open>k\<close> all match; the streak before poll \<open>i\<close> is the number
  of consecutive matching polls that end just before it.
\<close>

definition matchesPrevious :: "(nat \<Rightarrow> nat) \<Rightarrow> nat \<Rightarrow> bool" where
  "matchesPrevious cs i = (cs i = (if i = 0 then 0 else cs (i - 1)))"

definition stableAt :: "(nat \<Rightarrow> nat) \<Rightarrow> nat \<Rightarrow> bool" where
  "stableAt cs k =
     (2 \<le> k \<and> matchesPrevious cs k \<and> matchesPrevious cs (k - 1) \<and> matchesPrevious cs (k - 2))"

fun streak :: "(nat \<Rightarrow> nat) \<Rightarrow> nat \<Rightarrow> nat" where
  "streak cs 0 = 0"
| "streak cs (Suc i) = (if matchesPrevious cs i then Suc (streak cs i) else 0)"

text \<open>
  The calls after \<open>i\<close> complete rounds of the loop, and a page on schedule: its poll \<open>i\<close>
  reads \<open>cs i\<close>, the script takes no time and the timer fires after its 500 milliseconds,
  so that poll \<open>i\<close> happens \<open>500 * i\<close> milliseconds after the start.
\<close>

definition pollHistory :: "call list \<Rightarrow> nat \<Rightarrow> call list" where
  "pollHistory t i = t @ concat (replicate i [Evaluate FieldCountScript, WaitForTimeout 500])"

definition onSchedule :: "page \<Rightarrow> call list \<Rightarrow> (nat \<Rightarrow> nat) \<Rightarrow> bool" where
  "onSchedule p t cs =
     (\<forall>i. field_count_of p (pollHistory t i) = Inr (cs i)
          \<and> took_ms p (pollHistory t i) (Evaluate FieldCountScript) = 0
          \<and> rejects p (pollHistory t i @ [Evaluate FieldCountScript]) (WaitForTimeout 500) = None
          \<and> took_ms p (pollHistory t i @ [Evaluate FieldCountScript]) (WaitForTimeout 500) = 0)"

text \<open>\<^verbatim>\<open>debugFormFields\<close> reads the fields for the console and catches every failure.\<close>

definition debugFormFields :: "page \<Rightarrow> call list \<Rightarrow> call list" where
  "debugFormFields p t = t @ [Evaluate DebugFieldsScript]"


subsection \<open>Main runner\<close>

text \<open>
  The profile of \<^verbatim>\<open>config/user.json\<close> as \<^verbatim>\<open>loadUser\<close> returns it: the four required
  keys are present, the others may be absent.
\<close>

record user =
  firstName :: string
  lastName :: string
  email :: string
  resumePath :: string
  phone :: "string option"
  salary :: "string option"
  linkedin :: "string option"
  github :: "string option"
  website :: "string option"
  gender :: "string option"
  location :: "string option"
  taxResidence :: "string option"
  noticePeriod :: "string option"
  referredBy :: "string option"

text \<open>\<^verbatim>\<open>await page.fill(selector, value).catch(() => { })\<close>\<close>

definition pageFill :: "page \<Rightarrow> string \<Rightarrow> string \<Rightarrow> call list \<Rightarrow> call list" where
  "pageFill p selector v t = snd (perform p (Fill (Locator selector) v) t)"

text \<open>
  The name fields.  The selector and label lists are arguments because the two versions
  of the runner differ in them only.
\<close>

definition fillNames ::
  "page \<Rightarrow> string list \<Rightarrow> string list \<Rightarrow> string list \<Rightarrow> string list \<Rightarrow> string list \<Rightarrow> user
   \<Rightarrow> call list \<Rightarrow> call list"
where
  "fillNames p firstSelectors lastSelectors fullSelectors firstLabels lastLabels u t =
     (case findFirstVisibleSelector p firstSelectors t of (firstSelector, t1) \<Rightarrow>
      case findFirstVisibleSelector p lastSelectors t1 of (lastSelector, t2) \<Rightarrow>
      case findFirstVisibleSelector p fullSelectors t2 of (fullSelector, t3) \<Rightarrow>
        if truthy firstSelector \<and> truthy lastSelector then
          pageFill p (the lastSelector) (lastName u) (pageFill p (the firstSelector) (firstName u) t3)
        else if \<not> truthy firstSelector \<and> \<not> truthy lastSelector \<and> truthy fullSelector then
          pageFill p (the fullSelector) (firstName u @ '' '' @ lastName u) t3
        else
          snd (fillTextByLabel p lastLabels (Some (lastName u))
                 (snd (fillTextByLabel p firstLabels (Some (firstName u)) t3))))"

definition URL_FIELDS :: string where
  \<open>URL_FIELDS = ''input[type="url"], input[placeholder*="url" i], input[name*="url" i]''\<close>

definition fillFirstUrlField :: "page \<Rightarrow> string \<Rightarrow> call list \<Rightarrow> call list" where
  "fillFirstUrlField p v t =
     (case count p (Locator URL_FIELDS) t of
        (Inl e, t1) \<Rightarrow> t1
      | (Inr n, t1) \<Rightarrow>
          if n > 0 then snd (perform p (Fill (First (Locator URL_FIELDS)) v) t1) else t1)"

text \<open>Contact and social links: the generic selectors first, then the labels.\<close>

definition fillContact :: "page \<Rightarrow> user \<Rightarrow> call list \<Rightarrow> call list" where
  "fillContact p u t =
     (case fillGenericField p ''email'' (Some (email u)) t of (emailFilled, t1) \<Rightarrow>
      case fillGenericField p ''phone'' (phone u) t1 of (phoneFilled, t2) \<Rightarrow>
      case fillGenericField p ''salary'' (salary u) t2 of (salaryFilled, t3) \<Rightarrow>
      case fillGenericField p ''linkedin'' (js_or (linkedin u) (Some [])) t3 of (linkedinFilled, t4) \<Rightarrow>
      case fillGenericField p ''github'' (js_or (github u) (Some [])) t4 of (githubFilled, t5) \<Rightarrow>
      case fillGenericField p ''website'' (js_or (website u) (Some [])) t5 of (websiteFilled, t6) \<Rightarrow>
        (let t7 = (if \<not> emailFilled
                   then snd (fillTextByLabel p FIELD_LABELS_email (Some (email u)) t6) else t6);
             t8 = (if \<not> phoneFilled
                   then snd (fillTextByLabel p FIELD_LABELS_phone (phone u) t7) else t7);
             t9 = (if \<not> salaryFilled
                   then snd (fillTextByLabel p FIELD_LABELS_salary (salary u) t8) else t8);
             t10 = (if \<not> linkedinFilled
                    then snd (fillTextByLabel p FIELD_LABELS_linkedin (js_or (linkedin u) (Some [])) t9)
                    else t9);
             t11 = (if \<not> githubFilled
                    then snd (fillTextByLabel p FIELD_LABELS_github (js_or (github u) (Some [])) t10)
                    else t10);
             t12 = (if \<not> websiteFilled
                    then snd (fillTextByLabel p FIELD_LABELS_personalUrl
                                (js_or (website u) (js_or (linkedin u) (Some []))) t11)
                    else t11)
         in if \<not> linkedinFilled \<and> truthy (linkedin u)
            then fillFirstUrlField p (the (linkedin u)) t12 else t12))"

text \<open>
  Additional questions and selects.  The label lists are arguments, as for the names.
\<close>

definition fillQuestions ::
  "page \<Rightarrow> string list \<Rightarrow> string list \<Rightarrow> string list \<Rightarrow> string list \<Rightarrow> string list \<Rightarrow> string list
   \<Rightarrow> user \<Rightarrow> call list \<Rightarrow> call list"
where
  "fillQuestions p genderLabels countryLabels taxLabels noticeLabels salaryLabels referredLabels u t =
     (let t1 = (if truthy (gender u) then snd (clickRadioByLabel p genderLabels (gender u) t) else t);
          t2 = snd (selectByLabel p countryLabels (js_or (location u) (Some ''Germany'')) t1);
          t3 = snd (selectByLabel p taxLabels (js_or (taxResidence u) (Some ''Germany'')) t2);
          noticeValue = js_or (noticePeriod u) (Some ''Immediate'');
          t4 = snd (fillTextByLabel p noticeLabels noticeValue t3);
          salaryValue = js_or (salary u) (Some ''Flexible'');
          t5 = snd (fillTextByLabel p salaryLabels salaryValue t4)
      in snd (fillTextByLabel p referredLabels (js_or (referredBy u) (Some [])) t5))"

text \<open>
  A page that, whatever has been issued, finds one control for the label \<open>l\<close> and
  accepts the call \<open>c\<close>.
\<close>

definition answers :: "page \<Rightarrow> string \<Rightarrow> call \<Rightarrow> bool" where
  "answers p l c = (\<forall>h. count_of p h (GetByLabel l) = Inr 1 \<and> rejects p h c = None)"

text \<open>The whole FILL part of one URL in \<^verbatim>\<open>server/runner.mjs\<close>.\<close>

definition fillForm :: "page \<Rightarrow> user \<Rightarrow> call list \<Rightarrow> call list" where
  "fillForm p u t =
     (let t1 = fillNames p FIRST_NAME_SELECTORS LAST_NAME_SELECTORS FULL_NAME_SELECTORS
                 FIELD_LABELS_firstName FIELD_LABELS_lastName u t;
          t2 = fillContact p u t1;
          t3 = snd (setFileByLabel p FIELD_LABELS_cv (Some (resumePath u)) t2)
      in fillQuestions p FIELD_LABELS_gender FIELD_LABELS_country FIELD_LABELS_tax
           FIELD_LABELS_notice FIELD_LABELS_salary FIELD_LABELS_referred u t3)"

definition holdMessage :: string where
  "holdMessage =
     ''EasyApply: Fill missing fields and submit. When done, CLOSE this tab to continue the batch.''"

text \<open>
  The \<^verbatim>\<open>try\<close> block of one URL.  It ends with an exception or with the status and the
  notes it has set; the metadata is what \<^verbatim>\<open>meta\<close> holds at that point.
\<close>

definition processUrl_try ::
  "page \<Rightarrow> user \<Rightarrow> string \<Rightarrow> call list \<Rightarrow> (exn + string \<times> string) \<times> meta \<times> call list"
where
  "processUrl_try p u target t =
     (case perform p (Goto target) t of
        (Some e, t1) \<Rightarrow> (Inl e, defaultMeta, t1)
      | (None, t1) \<Rightarrow>
     (case perform p (WaitForTimeout 1200) t1 of
        (Some e, t2) \<Rightarrow> (Inl e, defaultMeta, t2)
      | (None, t2) \<Rightarrow>
     (case extractMeta p t2 of (m, t3) \<Rightarrow>
     (case waitForFormStability p 5000 t3 of
        (Inl e, t4) \<Rightarrow> (Inl e, m, t4)
      | (Inr isStable, t4) \<Rightarrow>
     (case showHoldBanner p holdMessage (fillForm p u (debugFormFields p t4)) of
        (Some e, t7) \<Rightarrow> (Inl e, m, t7)
      | (None, t7) \<Rightarrow>
     (case perform p WaitForClose t7 of
        (None, t8) \<Rightarrow> (Inr (''submitted'', ''form submitted and tab closed by user''), m, t8)
      | (Some e, t8) \<Rightarrow> (Inr (''error'', ''error waiting for tab close''), m, t8)))))))"

text \<open>
  Stations of one URL: navigation and settle delay have succeeded; the calls issued when
  the stability detector starts; and the calls issued when the hold banner is shown.
\<close>

definition settled :: "page \<Rightarrow> string \<Rightarrow> call list \<Rightarrow> bool" where
  "settled p target t =
     (rejects p t (Goto target) = None
      \<and> rejects p (t @ [Goto target]) (WaitForTimeout 1200) = None)"

definition beforeStability :: "page \<Rightarrow> string \<Rightarrow> call list \<Rightarrow> call list" where
  "beforeStability p target t = snd (extractMeta p (t @ [Goto target, WaitForTimeout 1200]))"

definition beforeHold :: "page \<Rightarrow> user \<Rightarrow> string \<Rightarrow> call list \<Rightarrow> call list" where
  "beforeHold p u target t =
     fillForm p u (debugFormFields p (snd (waitForFormStability p 5000 (beforeStability p target t))))"

text \<open>\<^verbatim>\<open>catch (error) { status = 'error'; notes = error?.message || 'unknown error' }\<close>\<close>

definition caught :: "exn \<Rightarrow> string \<times> string" where
  "caught e = (''error'', if message e = [] then ''unknown error'' else message e)"

definition processUrl :: "page \<Rightarrow> user \<Rightarrow> string \<Rightarrow> call list \<Rightarrow> (string \<times> string) \<times> meta \<times> call list" where
  "processUrl p u target t =
     (case processUrl_try p u target t of
        (Inl e, m, t') \<Rightarrow> (caught e, m, t')
      | (Inr r, m, t') \<Rightarrow> (r, m, t'))"

text \<open>
  The clock and the hash the rows are stamped with: the ISO time when the given calls
  have been issued, and the first twelve hexadecimal digits of the SHA-1 of a string.
\<close>

record sys =
  isoNow :: "call list \<Rightarrow> string"
  sha1hex12 :: "string \<Rightarrow> string"

definition resultRow :: "sys \<Rightarrow> user \<Rightarrow> string \<Rightarrow> call list \<Rightarrow> (string \<times> string) \<times> meta \<times> call list \<Rightarrow> row" where
  "resultRow s u target t r =
     (case r of ((st, n), m, t') \<Rightarrow>
        \<lparr>company = company m, title = title m, source = source m,
         tsStart = isoNow s t, tsEnd = isoNow s t', status = st, url = target,
         resume = resumePath u, notes' = n,
         jobId = sha1hex12 s (target @ isoNow s t)\<rparr>)"

text \<open>The loop over the URLs: the calls and the log file are the state.\<close>

fun runUrls :: "page \<Rightarrow> sys \<Rightarrow> user \<Rightarrow> string list \<Rightarrow> call list \<times> csvfile \<Rightarrow> call list \<times> csvfile" where
  "runUrls p s u [] (t, f) = (t, f)"
| "runUrls p s u (target # rest) (t, f) =
     (let r = processUrl p u target t
      in runUrls p s u rest (snd (snd r), appendCsv (resultRow s u target t r) f))"

definition runBatch :: "page \<Rightarrow> sys \<Rightarrow> user \<Rightarrow> string list \<Rightarrow> csvfile \<Rightarrow> call list \<times> csvfile" where
  "runBatch p s u urls f = runUrls p s u urls ([], ensureOutFiles f)"


subsection \<open>The runner with the auto-submit option\<close>

text \<open>
  The other version of \<^verbatim>\<open>server/runner.mjs\<close> takes \<^verbatim>\<open>options.autoSubmit\<close>, has its own
  label registry \<^verbatim>\<open>L\<close> and selector lists, fills by label only, and ends each URL with a
  submit step instead of the hold.
\<close>

definition L_firstName :: "string list" where
  "L_firstName = [''First name'', ''Given name'', ''Vorname'', ''Pr'' @ [CHR 0xC3, CHR 0xA9] @ ''nom'']"

definition L_lastName :: "string list" where
  "L_lastName = [''Last name'', ''Family name'', ''Surname'', ''Nachname'', ''Nom'']"

definition L_fullName :: "string list" where
  "L_fullName = [''Full name'', ''Your full name'', ''Name (full)'']"

definition L_phone :: "string list" where
  "L_phone =
     [''Phone'', ''Phone number'', ''Telefon'',
      ''T'' @ [CHR 0xC3, CHR 0xA9] @ ''l'' @ [CHR 0xC3, CHR 0xA9] @ ''phone'']"

definition L_email :: "string list" where
  "L_email = [''Email'', ''E-mail'', ''Email address'', ''E-Mail'']"

definition L_gender :: "string list" where
  "L_gender = [''Gender'', ''Gender to which you identify as'', ''Geschlecht'']"

definition L_personalUrl :: "string list" where
  "L_personalUrl = [''Personal URL'', ''Website'', ''Portfolio'', ''Personal site'', ''Homepage'']"

definition L_cv :: "string list" where
  "L_cv = [''Curriculum vitae'', ''CV'', ''Resume'', ''Lebenslauf'']"

definition L_country :: "string list" where
  "L_country = [''What country do you currently live in'', ''Country'', ''Current country'']"

definition L_tax :: "string list" where
  "L_tax = [''Tax residence'', ''Where is your tax residence'']"

definition L_notice :: "string list" where
  "L_notice = [''Notice period'', ''What is your notice period'']"

definition L_salary :: "string list" where
  "L_salary = [''Salary expectations'', ''What are your salary expectations'', ''Salary (EUR)'']"

definition L_referred :: "string list" where
  "L_referred = [''Were you referred'', ''Referral'', ''Referred by'']"

definition L_linkedin :: "string list" where
  "L_linkedin = [''LinkedIn'', ''LinkedIn profile'', ''LinkedIn URL'']"

definition FIRST_SELECTORS :: "string list" where
  "FIRST_SELECTORS = [''input[name*=first i]'', ''input[id*=first i]'', ''input[placeholder*=first i]'']"

definition LAST_SELECTORS :: "string list" where
  "LAST_SELECTORS = [''input[name*=last i]'', ''input[id*=last i]'', ''input[placeholder*=last i]'']"

definition FULLNAME_STRICT :: "string list" where
  \<open>FULLNAME_STRICT =
     [''input[autocomplete="name"]'',
      ''input[name="fullName"]'',
      ''input[id="fullName"]'',
      ''input[name="fullname"]'',
      ''input[id="fullname"]'',
      ''input[placeholder*="full name" i]'',
      ''input[aria-label*="full name" i]'']\<close>

text \<open>Its metadata script reads the site name from the \<^verbatim>\<open>content\<close> attribute only.\<close>

definition metaScriptAuto :: "document \<Rightarrow> pageData" where
  "metaScriptAuto d =
     (let ogTitle = getContent (ogTitleEl d);
          twTitle = getContent (twitterTitleEl d);
          h1 = js_or (h1InnerText d) None;
          t = (case js_or ogTitle (js_or twTitle (js_or h1 (js_or (Some (documentTitle d)) (Some [])))) of
                 None \<Rightarrow> [] | Some s \<Rightarrow> s)
      in \<lparr>pd_title = sliceTo 160 (trim t),
          pd_siteName = (case siteNameEl d of None \<Rightarrow> None | Some e \<Rightarrow> js_or (content e) None),
          pd_company = companyFromScripts (jsonLdScripts d)\<rparr>)"

definition sourceOfHost :: "string \<Rightarrow> string" where
  "sourceOfHost host =
     (if sublist ''greenhouse.io'' host then ''Greenhouse''
      else if sublist ''lever.co'' host then ''Lever''
      else if sublist ''myworkdayjobs'' host then ''Workday''
      else if sublist ''personio'' host \<or> sublist ''join.com'' host then ''Personio''
      else if sublist ''smartrecruiters'' host then ''SmartRecruiters''
      else if sublist ''linkedin.com'' host then ''LinkedIn''
      else ''Other'')"

definition extractMetaAuto :: "page \<Rightarrow> call list \<Rightarrow> meta \<times> call list" where
  "extractMetaAuto p t =
     (let t1 = t @ [Evaluate MetaScript] in
      case document_of p t of
        Inl e \<Rightarrow> (defaultMeta, t1)
      | Inr d \<Rightarrow>
          (let pageData = metaScriptAuto d; t2 = t1 @ [PageUrl] in
           case hostname_of p t1 of
             Inl e \<Rightarrow> (defaultMeta, t2)
           | Inr host \<Rightarrow>
               (\<lparr>company =
                   (case js_or (pd_company pageData)
                           (js_or (pd_siteName pageData) (Some (stripWww host))) of
                      None \<Rightarrow> [] | Some c \<Rightarrow> c),
                 title = pd_title pageData,
                 source = sourceOfHost host\<rparr>, t2)))"

definition fillFormAuto :: "page \<Rightarrow> user \<Rightarrow> call list \<Rightarrow> call list" where
  "fillFormAuto p u t =
     (let t1 = fillNames p FIRST_SELECTORS LAST_SELECTORS FULLNAME_STRICT L_firstName L_lastName u t;
          t2 = snd (fillTextByLabel p L_email (Some (email u)) t1);
          t3 = snd (fillTextByLabel p L_phone (phone u) t2);
          t4 = snd (fillTextByLabel p L_personalUrl
                      (js_or (website u) (js_or (linkedin u) (Some []))) t3);
          t5 = snd (fillTextByLabel p L_linkedin (js_or (linkedin u) (Some [])) t4);
          t6 = snd (setFileByLabel p L_cv (Some (resumePath u)) t5)
      in fillQuestions p L_gender L_country L_tax L_notice L_salary L_referred u t6)"

definition SUBMIT_CONTROLS :: locator where
  \<open>SUBMIT_CONTROLS =
     First (Locator (join '', ''
       [''button:has-text("Apply")'',
        ''button:has-text("Submit")'',
        ''button:has-text("Bewerben")'',
        ''button:has-text("Absenden")'',
        ''[role=button]:has-text("Apply")'',
        ''input[type=submit]'']))\<close>

text \<open>The submit step: the status and the notes it leaves, or the exception of the count.\<close>

definition submitStep :: "page \<Rightarrow> bool \<Rightarrow> call list \<Rightarrow> (exn + string \<times> string) \<times> call list" where
  "submitStep p autoSubmit t =
     (case count p SUBMIT_CONTROLS t of
        (Inl e, t1) \<Rightarrow> (Inl e, t1)
      | (Inr hasSubmit, t1) \<Rightarrow>
          if hasSubmit \<noteq> 0 \<and> autoSubmit then
            (Inr (''clicked'', []), snd (perform p (Click SUBMIT_CONTROLS) t1))
          else if hasSubmit \<noteq> 0 \<and> \<not> autoSubmit then
            (Inr (''skipped'', ''autoSubmit=false''), t1)
          else (Inr (''skipped'', ''no submit button''), t1))"

definition processUrlAuto_try ::
  "page \<Rightarrow> user \<Rightarrow> bool \<Rightarrow> string \<Rightarrow> call list \<Rightarrow> (exn + string \<times> string) \<times> meta \<times> call list"
where
  "processUrlAuto_try p u autoSubmit target t =
     (case perform p (Goto target) t of
        (Some e, t1) \<Rightarrow> (Inl e, defaultMeta, t1)
      | (None, t1) \<Rightarrow>
     (case perform p (WaitForTimeout 1200) t1 of
        (Some e, t2) \<Rightarrow> (Inl e, defaultMeta, t2)
      | (None, t2) \<Rightarrow>
     (case extractMetaAuto p t2 of (m, t3) \<Rightarrow>
     (case submitStep p autoSubmit (fillFormAuto p u t3) of (r, t5) \<Rightarrow> (r, m, t5)))))"


definition processUrlAuto ::
  "page \<Rightarrow> user \<Rightarrow> bool \<Rightarrow> string \<Rightarrow> call list \<Rightarrow> (string \<times> string) \<times> meta \<times> call list"
where
  "processUrlAuto p u autoSubmit target t =
     (case processUrlAuto_try p u autoSubmit target t of
        (Inl e, m, t') \<Rightarrow> (caught e, m, t')
      | (Inr r, m, t') \<Rightarrow> (r, m, t'))"

fun runUrlsAuto ::
  "page \<Rightarrow> sys \<Rightarrow> user \<Rightarrow> bool \<Rightarrow> string list \<Rightarrow> call list \<times> csvfile \<Rightarrow> call list \<times> csvfile"
where
  "runUrlsAuto p s u autoSubmit [] (t, f) = (t, f)"
| "runUrlsAuto p s u autoSubmit (target # rest) (t, f) =
     (let r = processUrlAuto p u autoSubmit target t
      in runUrlsAuto p s u autoSubmit rest
           (snd (snd r), appendCsv (resultRow s u target t r) f))"

definition runBatchAuto ::
  "page \<Rightarrow> sys \<Rightarrow> user \<Rightarrow> bool \<Rightarrow> string list \<Rightarrow> csvfile \<Rightarrow> call list \<times> csvfile"
where
  "runBatchAuto p s u autoSubmit urls f = runUrlsAuto p s u autoSubmit urls ([], ensureOutFiles f)"

subsection \<open>Example pages and profiles\<close>

text \<open>
  A page on which no locator finds anything, every call is accepted at once, the
  document is empty and the host is \<^verbatim>\<open>example.com\<close>; and a profile with the required
  keys only.
\<close>

definition emptyDocument :: document where
  "emptyDocument =
     \<lparr>ogTitleEl = None, twitterTitleEl = None, h1InnerText = None, documentTitle = [],
      siteNameEl = None, jsonLdScripts = []\<rparr>"

definition blankPage :: page where
  "blankPage =
     \<lparr>elements_of = (\<lambda>h l. []),
      shown = (\<lambda>h c. True),
      rejects = (\<lambda>h c. None),
      document_of = (\<lambda>h. Inr emptyDocument),
      hostname_of = (\<lambda>h. Inr ''example.com''),
      field_count_of = (\<lambda>h. Inr 0),
      took_ms = (\<lambda>h c. 0)\<rparr>"








text \<open>A page on which every label finds one control.\<close>

definition labelledPage :: page where
  "labelledPage =
     blankPage\<lparr>elements_of := (\<lambda>h l. case l of GetByLabel x \<Rightarrow> [0] | _ \<Rightarrow> [])\<rparr>"


text \<open>A page on schedule that always has five fields.\<close>

definition fivePage :: page where
  "fivePage = blankPage\<lparr>field_count_of := (\<lambda>h. Inr 5)\<rparr>"

text \<open>
  A page that cannot be reached, one whose tab-close wait fails, and one whose metadata
  script throws.
\<close>

definition downPage :: page where
  "downPage =
     blankPage\<lparr>rejects := (\<lambda>h c. case c of Goto x \<Rightarrow> Some (Error ''net::ERR_NAME_NOT_RESOLVED'')
                                         | _ \<Rightarrow> None)\<rparr>"

definition closeFailsPage :: page where
  "closeFailsPage =
     blankPage\<lparr>rejects := (\<lambda>h c. if c = WaitForClose then Some (Error ''Target crashed'') else None)\<rparr>"

definition metaFailsPage :: page where
  "metaFailsPage = blankPage\<lparr>document_of := (\<lambda>h. Inl (Error ''Execution context was destroyed''))\<rparr>"


definition minimalUser :: user where
  "minimalUser =
     \<lparr>firstName = ''Jane'', lastName = ''Doe'', email = ''a@b.com'', resumePath = ''/cv.pdf'',
      phone = None, salary = None, linkedin = None, github = None, website = None,
      gender = None, location = None, taxResidence = None, noticePeriod = None,
      referredBy = None\<rparr>"

text \<open>
  A page whose JSON-LD block names the hiring organization \<^verbatim>\<open>Acme\<close> followed by a
  carriage return (in the block, the escape of JSON for U+000D) and whose heading is
  \<^verbatim>\<open>Engineer\<close>; and a row with the metadata of that page.
\<close>

definition returnPage :: page where
  "returnPage =
     blankPage\<lparr>document_of := (\<lambda>h. Inr (emptyDocument
       \<lparr>h1InnerText := Some ''Engineer'',
        jsonLdScripts :=
          [LdItems [LdItem (Some ''JobPosting'') (Some (''Acme'' @ [carriageReturn]))]]\<rparr>))\<rparr>"

definition returnRow :: row where
  "returnRow =
     \<lparr>company = ''Acme'' @ [carriageReturn], title = ''Engineer'', source = ''Other'',
      tsStart = ''2025-01-01T00:00:00.000Z'', tsEnd = ''2025-01-01T00:01:00.000Z'',
      status = ''submitted'', url = ''https://example.com/job'', resume = ''/cv.pdf'',
      notes' = ''form submitted and tab closed by user'', jobId = ''0123456789ab''\<rparr>"

section \<open>Properties\<close>

subsection \<open>The log: escaping and reading back\<close>

lemma needsQuoting_set:
  "needsQuoting v = (dquote \<in> set v \<or> comma \<in> set v \<or> newline \<in> set v)"
  by (auto simp: needsQuoting_def list_ex_iff)

lemma chars_distinct:
  "dquote \<noteq> comma" "dquote \<noteq> newline" "comma \<noteq> newline"
  "carriageReturn \<noteq> dquote" "carriageReturn \<noteq> comma" "carriageReturn \<noteq> newline"
  by (simp_all add: dquote_def comma_def newline_def carriageReturn_def)

lemma read_plain_comma:
  "\<not> needsQuoting v \<Longrightarrow> carriageReturn \<notin> set v \<Longrightarrow>
   csv_read_from InPlain cur fs rs (v @ comma # rest) =
   csv_read_from FieldStart [] ((rev cur @ v) # fs) rs rest"
  using chars_distinct by (induction v arbitrary: cur) (auto simp: needsQuoting_set)

lemma read_plain_newline:
  "\<not> needsQuoting v \<Longrightarrow> carriageReturn \<notin> set v \<Longrightarrow>
   csv_read_from InPlain cur fs rs (v @ newline # rest) =
   csv_read_from FieldStart [] [] (rev ((rev cur @ v) # fs) # rs) rest"
  using chars_distinct by (induction v arbitrary: cur) (auto simp: needsQuoting_set)

lemma read_quoted_comma:
  "csv_read_from InQuoted cur fs rs (doubleQuotes v @ dquote # comma # rest) =
   csv_read_from FieldStart [] ((rev cur @ v) # fs) rs rest"
  using chars_distinct by (induction v arbitrary: cur) (auto simp: doubleQuotes_def)

lemma read_quoted_newline:
  "csv_read_from InQuoted cur fs rs (doubleQuotes v @ dquote # newline # rest) =
   csv_read_from FieldStart [] [] (rev ((rev cur @ v) # fs) # rs) rest"
  using chars_distinct by (induction v arbitrary: cur) (auto simp: doubleQuotes_def)

lemma read_cell_comma:
  assumes "needsQuoting v \<or> carriageReturn \<notin> set v"
  shows "csv_read_from FieldStart [] fs rs (escapeCsvValue (Some v) @ comma # rest) =
         csv_read_from FieldStart [] (v # fs) rs rest"
proof (cases "needsQuoting v")
  case True
  then show ?thesis by (simp add: escapeCsvValue_def read_quoted_comma)
next
  case False
  with assms have cr: "carriageReturn \<notin> set v" by simp
  show ?thesis
  proof (cases v)
    case Nil
    then show ?thesis using chars_distinct by (simp add: escapeCsvValue_def needsQuoting_def)
  next
    case (Cons c cs)
    with False cr have c: "c \<noteq> dquote" "c \<noteq> comma" "c \<noteq> newline" "c \<noteq> carriageReturn"
      and cs: "\<not> needsQuoting cs" "carriageReturn \<notin> set cs"
      by (auto simp: needsQuoting_set)
    show ?thesis using False c Cons read_plain_comma [OF cs, of "[c]"]
      by (simp add: escapeCsvValue_def)
  qed
qed

lemma read_cell_newline:
  assumes "needsQuoting v \<or> carriageReturn \<notin> set v"
  shows "csv_read_from FieldStart [] fs rs (escapeCsvValue (Some v) @ newline # rest) =
         csv_read_from FieldStart [] [] (rev (v # fs) # rs) rest"
proof (cases "needsQuoting v")
  case True
  then show ?thesis by (simp add: escapeCsvValue_def read_quoted_newline)
next
  case False
  with assms have cr: "carriageReturn \<notin> set v" by simp
  show ?thesis
  proof (cases v)
    case Nil
    then show ?thesis using chars_distinct by (simp add: escapeCsvValue_def needsQuoting_def)
  next
    case (Cons c cs)
    with False cr have c: "c \<noteq> dquote" "c \<noteq> comma" "c \<noteq> newline" "c \<noteq> carriageReturn"
      and cs: "\<not> needsQuoting cs" "carriageReturn \<notin> set cs"
      by (auto simp: needsQuoting_set)
    show ?thesis using False c Cons read_plain_newline [OF cs, of "[c]"]
      by (simp add: escapeCsvValue_def)
  qed
qed

lemma read_cells:
  "vs \<noteq> [] \<Longrightarrow> list_all (\<lambda>v. needsQuoting v \<or> carriageReturn \<notin> set v) vs \<Longrightarrow>
   csv_read_from FieldStart [] fs rs
     (join [comma] (map (\<lambda>c. escapeCsvValue (Some c)) vs) @ newline # rest) =
   csv_read_from FieldStart [] [] (rev (rev vs @ fs) # rs) rest"
proof (induction "[comma]" vs arbitrary: fs rule: join.induct)
  case 1
  then show ?case by simp
next
  case (2 x)
  then show ?case by (simp add: read_cell_newline)
next
  case (3 x y ys)
  then show ?case by (simp add: read_cell_comma)
qed

lemma read_lines:
  "list_all (\<lambda>r. list_all (\<lambda>v. needsQuoting v \<or> carriageReturn \<notin> set v) (rowCells r)) rows \<Longrightarrow>
   csv_read_from FieldStart [] [] rs (concat (map csvLine rows)) = Some (rev rs @ map rowCells rows)"
proof (induction rows arbitrary: rs)
  case Nil
  then show ?case by simp
next
  case (Cons r rows)
  have ne: "rowCells r \<noteq> []" by (simp add: rowCells_def)
  from Cons.prems have a: "list_all (\<lambda>v. needsQuoting v \<or> carriageReturn \<notin> set v) (rowCells r)"
    and b: "list_all (\<lambda>r. list_all (\<lambda>v. needsQuoting v \<or> carriageReturn \<notin> set v) (rowCells r)) rows"
    by simp_all
  show ?case using read_cells [OF ne a] Cons.IH [OF b] by (simp add: csvLine_def)
qed

text \<open>No cell read from text without a double quote holds a carriage return.\<close>

lemma plain_cells_no_return:
  "dquote \<notin> set s \<Longrightarrow> st \<noteq> InQuoted \<Longrightarrow> st \<noteq> QuoteSeen \<Longrightarrow>
   carriageReturn \<notin> set cur \<union> \<Union>(set ` set fs) \<union> \<Union>(set ` \<Union>(set ` set rs)) \<Longrightarrow>
   csv_read_from st cur fs rs s = Some res \<Longrightarrow>
   carriageReturn \<notin> \<Union>(set ` \<Union>(set ` set res))"
proof (induction s arbitrary: st cur fs rs)
  case Nil
  then show ?case by (cases st) (auto split: if_splits)
next
  case (Cons c s)
  from Cons.prems have q: "dquote \<notin> set s" "c \<noteq> dquote" by auto
  note ih = Cons.IH [OF q(1)]
  show ?case
  proof (cases st)
    case FieldStart
    show ?thesis
      using Cons.prems(4,5) q(2) FieldStart
        ih [of FieldStart "[]" "[] # fs" rs]
        ih [of FieldStart "[]" "[]" "rev ([] # fs) # rs"]
        ih [of AfterCR "[]" "[]" "rev ([] # fs) # rs"]
        ih [of InPlain "[c]" fs rs]
      by (simp split: if_splits)
  next
    case InPlain
    show ?thesis
      using Cons.prems(4,5) q(2) InPlain
        ih [of FieldStart "[]" "rev cur # fs" rs]
        ih [of FieldStart "[]" "[]" "rev (rev cur # fs) # rs"]
        ih [of AfterCR "[]" "[]" "rev (rev cur # fs) # rs"]
        ih [of InPlain "c # cur" fs rs]
      by (simp split: if_splits)
  next
    case AfterCR
    show ?thesis
      using Cons.prems(4,5) q(2) AfterCR
        ih [of FieldStart "[]" "[] # fs" rs]
        ih [of FieldStart "[]" fs rs]
        ih [of AfterCR "[]" "[]" "rev ([] # fs) # rs"]
        ih [of InPlain "[c]" fs rs]
      by (simp split: if_splits)
  qed (use Cons.prems in auto)
qed

text \<open>Reading back any cell, whatever it holds: how the records can grow.\<close>

lemma completes_snoc:
  "list_all (\<lambda>r. length r \<le> 1) new \<Longrightarrow> completes fs 1 (new @ [rev (x # fs)])"
  by (simp add: completes_def)

lemma completes_all:
  assumes "completes [] n new"
  shows "list_all (\<lambda>r. length r \<le> n) new"
proof -
  from assms have ne: "new \<noteq> []" and l: "length (last new) \<le> n"
    and b: "list_all (\<lambda>r. length r \<le> n) (butlast new)"
    by (simp_all add: completes_def)
  have "list_all (\<lambda>r. length r \<le> n) (butlast new @ [last new])" using l b by simp
  with ne show ?thesis by simp
qed

lemma read_any_plain_comma:
  assumes "\<not> needsQuoting v" "st = FieldStart \<or> st = InPlain \<or> st = AfterCR"
  shows "\<exists>x fs' new.
           csv_read_from st cur fs rs (v @ comma # rest) =
             csv_read_from FieldStart [] (x # fs') (new @ rs) rest
           \<and> ((new = [] \<and> fs' = fs) \<or> (fs' = [] \<and> completes fs 1 new))"
  using assms
proof (induction v arbitrary: st cur fs rs)
  case Nil
  have "csv_read_from st cur fs rs (comma # rest) =
        csv_read_from FieldStart [] ((if st = InPlain then rev cur else []) # fs) ([] @ rs) rest"
    using Nil.prems(2) chars_distinct by auto
  then show ?case by (intro exI [of _ "if st = InPlain then rev cur else []"] exI [of _ fs] exI [of _ "[]"]) simp
next
  case (Cons c v)
  from Cons.prems(1) have c: "c \<noteq> dquote" "c \<noteq> comma" "c \<noteq> newline" and v: "\<not> needsQuoting v"
    by (auto simp: needsQuoting_set)
  show ?case
  proof (cases "c = carriageReturn")
    case True
    define x where "x = (if st = InPlain then rev cur else [])"
    have step: "csv_read_from st cur fs rs ((c # v) @ comma # rest) =
                csv_read_from AfterCR [] [] (rev (x # fs) # rs) (v @ comma # rest)"
      using Cons.prems(2) True chars_distinct by (auto simp: x_def)
    from Cons.IH [OF v, of AfterCR "[]" "[]" "rev (x # fs) # rs"] obtain y fs' new where
      r: "csv_read_from AfterCR [] [] (rev (x # fs) # rs) (v @ comma # rest) =
          csv_read_from FieldStart [] (y # fs') (new @ rev (x # fs) # rs) rest"
      and d: "(new = [] \<and> fs' = []) \<or> (fs' = [] \<and> completes [] 1 new)"
      by blast
    from d have fs': "fs' = []" by blast
    from d have "list_all (\<lambda>r. length r \<le> 1) new" using completes_all by auto
    then have "completes fs 1 (new @ [rev (x # fs)])" by (rule completes_snoc)
    moreover have "csv_read_from st cur fs rs ((c # v) @ comma # rest) =
                   csv_read_from FieldStart [] (y # []) ((new @ [rev (x # fs)]) @ rs) rest"
      using step r fs' by simp
    ultimately show ?thesis by blast
  next
    case False
    define cur' where "cur' = (if st = InPlain then c # cur else [c])"
    have step: "csv_read_from st cur fs rs ((c # v) @ comma # rest) =
                csv_read_from InPlain cur' fs rs (v @ comma # rest)"
      using Cons.prems(2) False c by (auto simp: cur'_def)
    from Cons.IH [OF v, of InPlain cur' fs rs] step show ?thesis by simp
  qed
qed

lemma read_any_plain_newline:
  assumes "\<not> needsQuoting v"
  shows "(st = FieldStart \<or> st = InPlain \<longrightarrow>
            (\<exists>new. csv_read_from st cur fs rs (v @ newline # rest) =
                      csv_read_from FieldStart [] [] (new @ rs) rest
                    \<and> completes fs 1 new))
         \<and> (st = AfterCR \<longrightarrow>
            (\<exists>new. csv_read_from st cur [] rs (v @ newline # rest) =
                      csv_read_from FieldStart [] [] (new @ rs) rest
                    \<and> list_all (\<lambda>r. length r \<le> 1) new))"
  using assms
proof (induction v arbitrary: st cur fs rs)
  case Nil
  have a: "st = FieldStart \<or> st = InPlain \<Longrightarrow>
        csv_read_from st cur fs rs (newline # rest) =
        csv_read_from FieldStart [] [] ([rev ((if st = InPlain then rev cur else []) # fs)] @ rs) rest"
    using chars_distinct by auto
  have b: "csv_read_from AfterCR cur [] rs (newline # rest) =
           csv_read_from FieldStart [] [] ([] @ rs) rest"
    by simp
  have c: "completes fs 1 [rev ((if st = InPlain then rev cur else []) # fs)]"
    using completes_snoc [of "[]"] by simp
  show ?case
  proof (intro conjI impI)
    assume "st = FieldStart \<or> st = InPlain"
    from a [OF this] c show
      "\<exists>new. csv_read_from st cur fs rs ([] @ newline # rest) =
               csv_read_from FieldStart [] [] (new @ rs) rest \<and> completes fs 1 new"
      by (intro exI [of _ "[rev ((if st = InPlain then rev cur else []) # fs)]"]) simp
  next
    assume "st = AfterCR"
    with b show
      "\<exists>new. csv_read_from st cur [] rs ([] @ newline # rest) =
               csv_read_from FieldStart [] [] (new @ rs) rest \<and> list_all (\<lambda>r. length r \<le> 1) new"
      by (intro exI [of _ "[]"]) simp
  qed
next
  case (Cons c v)
  from Cons.prems(1) have c: "c \<noteq> dquote" "c \<noteq> comma" "c \<noteq> newline" and v: "\<not> needsQuoting v"
    by (auto simp: needsQuoting_set)
  note ih = Cons.IH [OF v]
  show ?case
  proof (cases "c = carriageReturn")
    case True
    from ih [of AfterCR "[]" "[]"] have after:
      "\<exists>new. csv_read_from AfterCR [] [] rs' (v @ newline # rest) =
               csv_read_from FieldStart [] [] (new @ rs') rest \<and> list_all (\<lambda>r. length r \<le> 1) new"
      for rs' by blast
    show ?thesis
    proof (intro conjI impI)
      assume st: "st = FieldStart \<or> st = InPlain"
      define x where "x = (if st = InPlain then rev cur else [])"
      have step: "csv_read_from st cur fs rs ((c # v) @ newline # rest) =
                  csv_read_from AfterCR [] [] (rev (x # fs) # rs) (v @ newline # rest)"
        using st True chars_distinct by (auto simp: x_def)
      from after [of "rev (x # fs) # rs"] obtain new where
        r: "csv_read_from AfterCR [] [] (rev (x # fs) # rs) (v @ newline # rest) =
            csv_read_from FieldStart [] [] (new @ rev (x # fs) # rs) rest"
        and d: "list_all (\<lambda>r. length r \<le> 1) new" by blast
      have "completes fs 1 (new @ [rev (x # fs)])" using d by (rule completes_snoc)
      moreover have "csv_read_from st cur fs rs ((c # v) @ newline # rest) =
                     csv_read_from FieldStart [] [] ((new @ [rev (x # fs)]) @ rs) rest"
        using step r by simp
      ultimately show
        "\<exists>new. csv_read_from st cur fs rs ((c # v) @ newline # rest) =
                 csv_read_from FieldStart [] [] (new @ rs) rest \<and> completes fs 1 new"
        by blast
    next
      assume st: "st = AfterCR"
      have step: "csv_read_from st cur [] rs ((c # v) @ newline # rest) =
                  csv_read_from AfterCR [] [] ([[]] # rs) (v @ newline # rest)"
        using st True chars_distinct by auto
      from after [of "[[]] # rs"] obtain new where
        r: "csv_read_from AfterCR [] [] ([[]] # rs) (v @ newline # rest) =
            csv_read_from FieldStart [] [] (new @ [[]] # rs) rest"
        and d: "list_all (\<lambda>r. length r \<le> 1) new" by blast
      have "list_all (\<lambda>r. length r \<le> 1) (new @ [[[]]])" using d by simp
      moreover have "csv_read_from st cur [] rs ((c # v) @ newline # rest) =
                     csv_read_from FieldStart [] [] ((new @ [[[]]]) @ rs) rest"
        using step r by simp
      ultimately show
        "\<exists>new. csv_read_from st cur [] rs ((c # v) @ newline # rest) =
                 csv_read_from FieldStart [] [] (new @ rs) rest \<and> list_all (\<lambda>r. length r \<le> 1) new"
        by blast
    qed
  next
    case False
    show ?thesis
    proof (intro conjI impI)
      assume st: "st = FieldStart \<or> st = InPlain"
      define cur' where "cur' = (if st = InPlain then c # cur else [c])"
      have step: "csv_read_from st cur fs rs ((c # v) @ newline # rest) =
                  csv_read_from InPlain cur' fs rs (v @ newline # rest)"
        using st False c by (auto simp: cur'_def)
      from ih [of InPlain cur' fs rs] step show
        "\<exists>new. csv_read_from st cur fs rs ((c # v) @ newline # rest) =
                 csv_read_from FieldStart [] [] (new @ rs) rest \<and> completes fs 1 new"
        by simp
    next
      assume st: "st = AfterCR"
      have step: "csv_read_from st cur [] rs ((c # v) @ newline # rest) =
                  csv_read_from InPlain [c] [] rs (v @ newline # rest)"
        using st False c by auto
      from ih [of InPlain "[c]" "[]" rs] obtain new where
        r: "csv_read_from InPlain [c] [] rs (v @ newline # rest) =
            csv_read_from FieldStart [] [] (new @ rs) rest"
        and d: "completes [] 1 new" by blast
      from d have "list_all (\<lambda>r. length r \<le> 1) new" by (rule completes_all)
      with step r show
        "\<exists>new. csv_read_from st cur [] rs ((c # v) @ newline # rest) =
                 csv_read_from FieldStart [] [] (new @ rs) rest \<and> list_all (\<lambda>r. length r \<le> 1) new"
        by auto
    qed
  qed
qed

lemma read_any_cell_comma:
  "\<exists>x fs' new.
     csv_read_from FieldStart [] fs rs (escapeCsvValue (Some v) @ comma # rest) =
       csv_read_from FieldStart [] (x # fs') (new @ rs) rest
     \<and> ((new = [] \<and> fs' = fs) \<or> (fs' = [] \<and> completes fs 1 new))"
proof (cases "needsQuoting v")
  case True
  then have "csv_read_from FieldStart [] fs rs (escapeCsvValue (Some v) @ comma # rest) =
             csv_read_from FieldStart [] (v # fs) ([] @ rs) rest"
    by (simp add: escapeCsvValue_def read_quoted_comma)
  then show ?thesis by blast
next
  case False
  then show ?thesis
    using read_any_plain_comma [OF False, where st = FieldStart and cur = "[]" and fs = fs and rs = rs and rest = rest]
    by (simp add: escapeCsvValue_def)
qed

lemma read_any_cell_newline:
  "\<exists>new.
     csv_read_from FieldStart [] fs rs (escapeCsvValue (Some v) @ newline # rest) =
       csv_read_from FieldStart [] [] (new @ rs) rest
     \<and> completes fs 1 new"
proof (cases "needsQuoting v")
  case True
  then have "csv_read_from FieldStart [] fs rs (escapeCsvValue (Some v) @ newline # rest) =
             csv_read_from FieldStart [] [] ([rev (v # fs)] @ rs) rest"
    by (simp add: escapeCsvValue_def read_quoted_newline)
  moreover have "completes fs 1 [rev (v # fs)]" using completes_snoc [of "[]"] by simp
  ultimately show ?thesis by blast
next
  case False
  then show ?thesis
    using read_any_plain_newline [OF False, where st = FieldStart and cur = "[]" and fs = fs and rs = rs and rest = rest]
    by (simp add: escapeCsvValue_def)
qed

lemma completes_more:
  assumes "completes (x # fs) n new"
  shows "completes fs (Suc n) new"
proof -
  from assms have p: "prefix (rev fs @ [x]) (last new)" by (simp add: completes_def)
  then have "prefix (rev fs) (last new)" by (rule append_prefixD)
  moreover have "list_all (\<lambda>r. length r \<le> Suc n) (butlast new)"
    using assms by (auto simp: completes_def list_all_iff)
  ultimately show ?thesis using assms by (simp add: completes_def)
qed

lemma completes_after:
  assumes a: "completes fs 1 new1" and b: "completes [x] n new2"
  shows "completes fs (Suc n) (new2 @ new1)"
proof -
  from a have ne: "new1 \<noteq> []" by (simp add: completes_def)
  from b have ne2: "new2 \<noteq> []" by (simp add: completes_def)
  have all2: "list_all (\<lambda>r. length r \<le> Suc n) new2"
  proof -
    have "list_all (\<lambda>r. length r \<le> Suc n) (butlast new2)"
      using b by (auto simp: completes_def list_all_iff)
    moreover have "length (last new2) \<le> Suc n" using b by (simp add: completes_def)
    ultimately have "list_all (\<lambda>r. length r \<le> Suc n) (butlast new2 @ [last new2])"
      by (simp del: append_butlast_last_id)
    with ne2 show ?thesis by simp
  qed
  have all1: "list_all (\<lambda>r. length r \<le> Suc n) (butlast new1)"
    using a by (auto simp: completes_def list_all_iff)
  have "butlast (new2 @ new1) = new2 @ butlast new1" using ne by (simp add: butlast_append)
  with all1 all2 have "list_all (\<lambda>r. length r \<le> Suc n) (butlast (new2 @ new1))" by simp
  then show ?thesis using a ne by (simp add: completes_def)
qed

lemma read_any_cells:
  "vs \<noteq> [] \<Longrightarrow>
   \<exists>new. csv_read_from FieldStart [] fs rs
            (join [comma] (map (\<lambda>c. escapeCsvValue (Some c)) vs) @ newline # rest) =
          csv_read_from FieldStart [] [] (new @ rs) rest
        \<and> completes fs (length vs) new"
proof (induction "[comma]" vs arbitrary: fs rs rule: join.induct)
  case 1
  then show ?case by simp
next
  case (2 x)
  then show ?case using read_any_cell_newline [where fs = fs and rs = rs and v = x and rest = rest] by simp
next
  case (3 x y ys)
  let ?tail = "join [comma] (map (\<lambda>c. escapeCsvValue (Some c)) (y # ys)) @ newline # rest"
  from read_any_cell_comma [where fs = fs and rs = rs and v = x and rest = ?tail] obtain c fs' new1 where
    r1: "csv_read_from FieldStart [] fs rs (escapeCsvValue (Some x) @ comma # ?tail) =
         csv_read_from FieldStart [] (c # fs') (new1 @ rs) ?tail"
    and d: "(new1 = [] \<and> fs' = fs) \<or> (fs' = [] \<and> completes fs 1 new1)"
    by blast
  from "3.hyps" [where fs = "c # fs'" and rs = "new1 @ rs"] obtain new2 where
    r2: "csv_read_from FieldStart [] (c # fs') (new1 @ rs) ?tail =
         csv_read_from FieldStart [] [] (new2 @ new1 @ rs) rest"
    and e: "completes (c # fs') (length (y # ys)) new2"
    by auto
  have whole: "csv_read_from FieldStart [] fs rs
                 (join [comma] (map (\<lambda>c. escapeCsvValue (Some c)) (x # y # ys)) @ newline # rest) =
               csv_read_from FieldStart [] [] ((new2 @ new1) @ rs) rest"
    using r1 r2 by simp
  from d have "completes fs (length (x # y # ys)) (new2 @ new1)"
  proof
    assume "new1 = [] \<and> fs' = fs"
    with e show ?thesis using completes_more [of c fs "length (y # ys)" new2] by simp
  next
    assume "fs' = [] \<and> completes fs 1 new1"
    with e show ?thesis using completes_after [of fs new1 c "length (y # ys)" new2] by simp
  qed
  with whole show ?case by blast
qed

lemma escape_wrapped_iff:
  "(escapeCsvValue (Some v) = [dquote] @ doubleQuotes v @ [dquote]) =
   (comma \<in> set v \<or> dquote \<in> set v \<or> newline \<in> set v)"
proof (cases "needsQuoting v")
  case True
  then show ?thesis by (auto simp: escapeCsvValue_def needsQuoting_set)
next
  case False
  then have "v \<noteq> [dquote] @ doubleQuotes v @ [dquote]"
    by (cases v) (auto simp: needsQuoting_set)
  with False show ?thesis by (auto simp: escapeCsvValue_def needsQuoting_set)
qed

lemma read_version:
  "csv_read_from FieldStart [] [] rs (''1'' @ comma # rest) =
   csv_read_from FieldStart [] [''1''] rs rest"
  by (simp add: dquote_def comma_def newline_def carriageReturn_def)

lemma roundtrip_iff:
  "(csv_read (''1'' @ comma # escapeCsvValue (Some v) @ [newline]) = Some [[''1'', v]]) =
   (needsQuoting v \<or> carriageReturn \<notin> set v)"
proof
  assume "needsQuoting v \<or> carriageReturn \<notin> set v"
  from read_cell_newline [OF this, where fs = "[''1'']" and rs = "[]" and rest = "[]"]
  show "csv_read (''1'' @ comma # escapeCsvValue (Some v) @ [newline]) = Some [[''1'', v]]"
    by (simp only: csv_read_def read_version) simp
next
  assume r: "csv_read (''1'' @ comma # escapeCsvValue (Some v) @ [newline]) = Some [[''1'', v]]"
  show "needsQuoting v \<or> carriageReturn \<notin> set v"
  proof (rule ccontr)
    assume "\<not> (needsQuoting v \<or> carriageReturn \<notin> set v)"
    then have n: "\<not> needsQuoting v" and cr: "carriageReturn \<in> set v" by simp_all
    from n have e: "escapeCsvValue (Some v) = v" by (simp add: escapeCsvValue_def)
    from n have q: "dquote \<notin> set (''1'' @ comma # v @ [newline])"
      using chars_distinct by (auto simp: needsQuoting_set dquote_def)
    from r e have "csv_read_from FieldStart [] [] [] (''1'' @ comma # v @ [newline]) = Some [[''1'', v]]"
      by (simp add: csv_read_def)
    from plain_cells_no_return [OF q _ _ _ this] have "carriageReturn \<notin> set v" by simp
    with cr show False by simp
  qed
qed

text \<open>
  C4.  \<^const>\<open>escapeCsvValue\<close> wraps a string in double quotes, its own quotes doubled,
  exactly when the string holds a comma, a double quote or a newline, and leaves it as
  it is otherwise.  Read back by the CSV rules, here as the cell after the version
  \<^verbatim>\<open>1\<close> of a record, the escaped cell is not the original
  string exactly when the string holds a carriage return and is not wrapped: a carriage
  return is a line break of CSV, and \<^const>\<open>escapeCsvValue\<close> does not wrap for it.  The
  company \<^verbatim>\<open>Acme\<close> followed by a carriage return is written unwrapped and read back as
  \<^verbatim>\<open>Acme\<close>; with a carriage return inside, a value is read back as two records; and the
  line of the row \<^const>\<open>returnRow\<close>, which has the metadata that \<^const>\<open>extractMeta\<close>
  returns on \<^const>\<open>returnPage\<close>, is read back as two records, of five and of seven
  cells.
\<close>

theorem csv_escape_carriage_return:
  "(escapeCsvValue (Some v) = [dquote] @ doubleQuotes v @ [dquote]) =
     (comma \<in> set v \<or> dquote \<in> set v \<or> newline \<in> set v)
   \<and> escapeCsvValue (Some v) =
       (if comma \<in> set v \<or> dquote \<in> set v \<or> newline \<in> set v
        then [dquote] @ doubleQuotes v @ [dquote] else v)
   \<and> (csv_read (''1'' @ comma # escapeCsvValue (Some v) @ [newline]) \<noteq> Some [[''1'', v]]) =
       (carriageReturn \<in> set v \<and> comma \<notin> set v \<and> dquote \<notin> set v \<and> newline \<notin> set v)
   \<and> escapeCsvValue (Some (''Acme'' @ [carriageReturn])) = ''Acme'' @ [carriageReturn]
   \<and> csv_read (escapeCsvValue (Some (''Acme'' @ [carriageReturn])) @ [newline]) = Some [[''Acme'']]
   \<and> csv_read (escapeCsvValue (Some (''Acme'' @ [carriageReturn] @ ''GmbH'')) @ [newline]) =
       Some [[''Acme''], [''GmbH'']]
   \<and> fst (extractMeta returnPage []) =
       \<lparr>company = company returnRow, title = title returnRow, source = source returnRow\<rparr>
   \<and> company returnRow = ''Acme'' @ [carriageReturn]
   \<and> csv_read (csvLine returnRow) =
       Some [[''1'', ''2025-01-01T00:00:00.000Z'', ''2025-01-01T00:01:00.000Z'', ''submitted'', ''Acme''],
             [[], ''Engineer'', ''Other'', ''https://example.com/job'', ''/cv.pdf'',
              ''form submitted and tab closed by user'', ''0123456789ab'']]"
proof -
  note chars = dquote_def comma_def newline_def carriageReturn_def
  have form: "escapeCsvValue (Some v) =
       (if comma \<in> set v \<or> dquote \<in> set v \<or> newline \<in> set v
        then [dquote] @ doubleQuotes v @ [dquote] else v)"
    by (auto simp: escapeCsvValue_def needsQuoting_set)
  have fails: "(csv_read (''1'' @ comma # escapeCsvValue (Some v) @ [newline]) \<noteq> Some [[''1'', v]]) =
       (carriageReturn \<in> set v \<and> comma \<notin> set v \<and> dquote \<notin> set v \<and> newline \<notin> set v)"
    using roundtrip_iff [of v] by (auto simp: needsQuoting_set)
  have e1: "escapeCsvValue (Some (''Acme'' @ [carriageReturn])) = ''Acme'' @ [carriageReturn]"
    by (simp add: escapeCsvValue_def needsQuoting_def chars)
  have e2: "csv_read (escapeCsvValue (Some (''Acme'' @ [carriageReturn])) @ [newline]) = Some [[''Acme'']]"
    by (simp add: escapeCsvValue_def needsQuoting_def csv_read_def chars)
  have e3: "csv_read (escapeCsvValue (Some (''Acme'' @ [carriageReturn] @ ''GmbH'')) @ [newline]) =
       Some [[''Acme''], [''GmbH'']]"
    by (simp add: escapeCsvValue_def needsQuoting_def csv_read_def chars)
  have e4: "company returnRow = ''Acme'' @ [carriageReturn]"
    by (simp add: returnRow_def)
  have e5: "csv_read (csvLine returnRow) =
       Some [[''1'', ''2025-01-01T00:00:00.000Z'', ''2025-01-01T00:01:00.000Z'', ''submitted'', ''Acme''],
             [[], ''Engineer'', ''Other'', ''https://example.com/job'', ''/cv.pdf'',
              ''form submitted and tab closed by user'', ''0123456789ab'']]"
    by (simp add: csvLine_def rowCells_def returnRow_def escapeCsvValue_def needsQuoting_def
          csv_read_def chars)
  have e6: "fst (extractMeta returnPage []) =
       \<lparr>company = company returnRow, title = title returnRow, source = source returnRow\<rparr>"
    by (simp add: extractMeta_def extractMeta_try_def returnPage_def blankPage_def emptyDocument_def
          metaScript_def getContent_def js_or_def truthy_def returnRow_def stripWww_def
          getJobBoardSource_def sourceMap_def sublist_code
          trim_def dropLeading.simps whiteSpace_def sliceTo.simps sequenceLength_def chars)
  show ?thesis by (intro conjI escape_wrapped_iff form fails e1 e2 e3 e6 e4 e5)
qed

subsection \<open>The log: initialization\<close>

lemma read_header:
  "csv_read_from FieldStart [] [] [] (csvHeader @ rest) =
   csv_read_from FieldStart [] [] [headerCells] rest"
  by (simp add: csvHeader_def headerCells_def dquote_def comma_def newline_def carriageReturn_def)

lemma read_any_line:
  "\<exists>new. csv_read_from FieldStart [] [] rs (csvLine r @ rest) =
          csv_read_from FieldStart [] [] (new @ rs) rest
        \<and> headerCells \<notin> set new"
proof -
  let ?vs = "[tsStart r, tsEnd r, status r, company r, title r, source r, url r,
              resume r, notes' r, jobId r]"
  let ?tail = "join [comma] (map (\<lambda>c. escapeCsvValue (Some c)) ?vs) @ newline # rest"
  have one: "escapeCsvValue (Some ''1'') = ''1''"
    by (simp add: escapeCsvValue_def needsQuoting_def dquote_def comma_def newline_def)
  have line: "csvLine r @ rest = ''1'' @ comma # ?tail"
    by (simp add: csvLine_def rowCells_def one)
  have first: "csv_read_from FieldStart [] [] rs (''1'' @ comma # ?tail) =
               csv_read_from FieldStart [] [''1''] rs ?tail"
    by (simp add: dquote_def comma_def newline_def carriageReturn_def)
  have ne: "?vs \<noteq> []" by simp
  from read_any_cells [OF ne, where fs = "[''1'']" and rs = rs and rest = rest] obtain new where
    r: "csv_read_from FieldStart [] [''1''] rs ?tail = csv_read_from FieldStart [] [] (new @ rs) rest"
    and c0: "completes [''1''] (length ?vs) new" by blast
  have "length ?vs = 10" by simp
  with c0 have c: "completes [''1''] 10 new" by (simp only:)
  have "headerCells \<notin> set new"
  proof
    assume h: "headerCells \<in> set new"
    from c have ne: "new \<noteq> []" and p: "prefix [''1''] (last new)"
      and b: "list_all (\<lambda>r. length r \<le> 10) (butlast new)"
      by (simp_all add: completes_def)
    from ne have "new = butlast new @ [last new]" by simp
    then have "set new = set (butlast new) \<union> {last new}"
      by (metis list.set(1) list.simps(15) set_append)
    with h have "headerCells \<in> set (butlast new) \<or> headerCells = last new" by auto
    then show False
    proof
      assume "headerCells \<in> set (butlast new)"
      with b have "length headerCells \<le> 10" by (auto simp: list_all_iff)
      then show False by (simp add: headerCells_def)
    next
      assume "headerCells = last new"
      with p have "prefix [''1''] headerCells" by simp
      then show False by (simp add: headerCells_def)
    qed
  qed
  with line first r show ?thesis by auto
qed

lemma read_any_lines:
  "\<exists>more. csv_read_from FieldStart [] [] rs (concat (map csvLine rows)) = Some (rev rs @ more)
         \<and> headerCells \<notin> set more"
proof (induction rows arbitrary: rs)
  case Nil
  then show ?case by simp
next
  case (Cons r rows)
  from read_any_line [where rs = rs and r = r and rest = "concat (map csvLine rows)"] obtain new where
    a: "csv_read_from FieldStart [] [] rs (csvLine r @ concat (map csvLine rows)) =
        csv_read_from FieldStart [] [] (new @ rs) (concat (map csvLine rows))"
    and h: "headerCells \<notin> set new" by blast
  from Cons.IH [where rs = "new @ rs"] obtain more where
    b: "csv_read_from FieldStart [] [] (new @ rs) (concat (map csvLine rows)) =
        Some (rev (new @ rs) @ more)"
    and h': "headerCells \<notin> set more" by blast
  have "csv_read_from FieldStart [] [] rs (concat (map csvLine (r # rows))) =
        Some (rev rs @ (rev new @ more))"
    using a b by simp
  moreover have "headerCells \<notin> set (rev new @ more)" using h h' by simp
  ultimately show ?case by blast
qed

lemma headerRecords_log:
  "headerRecords (csvHeader @ concat (map csvLine rs)) = 1"
proof -
  from read_any_lines [where rs = "[headerCells]" and rows = rs] obtain more where
    a: "csv_read_from FieldStart [] [] [headerCells] (concat (map csvLine rs)) =
        Some (headerCells # more)"
    and h: "headerCells \<notin> set more" by auto
  have "csv_read (csvHeader @ concat (map csvLine rs)) = Some (headerCells # more)"
    using a by (simp add: csv_read_def read_header)
  moreover have "filter (\<lambda>r. r = headerCells) more = []"
    using h by (induction more) auto
  ultimately show ?thesis by (simp add: headerRecords_def)
qed

lemma ensure_once: "ensureOutFiles (ensureOutFiles f) = ensureOutFiles f"
  by (simp add: ensureOutFiles_def split: option.splits)

lemma ensure_funpow: "(ensureOutFiles ^^ Suc n) f = ensureOutFiles f"
  by (induction n) (simp_all add: ensure_once)

lemma ensure_Some: "(ensureOutFiles ^^ n) (Some c) = Some c"
  by (induction n) (simp_all add: ensureOutFiles_def)

lemma fold_appendCsv:
  "fold appendCsv rows (Some c) = Some (c @ concat (map csvLine rows))"
  by (induction rows arbitrary: c) (simp_all add: appendCsv_def appendFile_def)

lemma logSession_Some:
  "logSession rows (Some c) = Some (c @ concat (map csvLine rows))"
  by (simp add: logSession_def ensureOutFiles_def fold_appendCsv)

lemma fold_logSession_Some:
  "fold logSession runs (Some c) = Some (c @ concat (map csvLine (concat runs)))"
  by (induction runs arbitrary: c) (simp_all add: logSession_Some)

lemma fold_logSession_None:
  "fold logSession (rows # runs) None =
   Some (csvHeader @ concat (map csvLine (concat (rows # runs))))"
  by (simp add: logSession_def ensureOutFiles_def fold_appendCsv fold_logSession_Some)

text \<open>
  C5.  Initializing the log any number of times from an absent file leaves exactly the
  header; an existing file is never rewritten; after any number of batches, each
  initializing and then appending its rows, the log is the header followed by all the
  rows, and exactly one of its records is a header.
\<close>

theorem log_initialization_idempotent:
  "(ensureOutFiles ^^ Suc n) None = Some csvHeader
   \<and> (ensureOutFiles ^^ n) (Some c) = Some c
   \<and> fold logSession (rows # runs) None =
       Some (csvHeader @ concat (map csvLine (concat (rows # runs))))
   \<and> headerRecords (csvHeader @ concat (map csvLine rs)) = 1"
proof -
  have "(ensureOutFiles ^^ Suc n) None = Some csvHeader"
    by (simp only: ensure_funpow) (simp add: ensureOutFiles_def)
  then show ?thesis
    using ensure_Some fold_logSession_None headerRecords_log by blast
qed

subsection \<open>Metadata extraction\<close>

lemma getJobBoardSource_no_match:
  "(\<forall>d \<in> set (map fst sourceMap). \<not> sublist d hostname) \<Longrightarrow> getJobBoardSource hostname = ''Other''"
proof -
  assume a: "\<forall>d \<in> set (map fst sourceMap). \<not> sublist d hostname"
  have "find (\<lambda>(domain, src). sublist domain hostname) sourceMap = None"
    using a by (auto simp: find_None_iff)
  then show ?thesis by (simp add: getJobBoardSource_def)
qed

lemma title_examples:
  "sliceTo 160 (trim ''  Senior Engineer  '') = ''Senior Engineer''"
  "trim ([CHR 0xC2, CHR 0xA0] @ ''a b'' @ [CHR 0xE2, CHR 0x80, CHR 0x83, CHR 0x0A]) = ''a b''"
  "sliceTo 2 (''a'' @ [CHR 0xC3, CHR 0xA9] @ ''z'') = ''a'' @ [CHR 0xC3, CHR 0xA9]"
  "sliceTo 3 (''a'' @ [CHR 0xF0, CHR 0x9F, CHR 0x98, CHR 0x80] @ ''z'') =
     ''a'' @ [CHR 0xF0, CHR 0x9F, CHR 0x98, CHR 0x80]"
  "sliceTo 2 (''a'' @ [CHR 0xF0, CHR 0x9F, CHR 0x98, CHR 0x80] @ ''z'') = ''a'' @ replacementCharacter"
  by (simp_all add: trim_def dropLeading.simps whiteSpace_def sliceTo.simps sequenceLength_def)

lemma extractMeta_caught:
  "extractMeta_try p t = (Inl e, t') \<Longrightarrow> extractMeta p t = (defaultMeta, t')"
  by (simp add: extractMeta_def)

lemma extractMeta_try_document:
  "document_of p t = Inl e \<Longrightarrow> extractMeta_try p t = (Inl e, t @ [Evaluate MetaScript])"
  by (simp add: extractMeta_try_def)

lemma extractMeta_try_hostname:
  "document_of p t = Inr d \<Longrightarrow> hostname_of p (t @ [Evaluate MetaScript]) = Inl e \<Longrightarrow>
   extractMeta_try p t = (Inl e, t @ [Evaluate MetaScript, PageUrl])"
  by (simp add: extractMeta_try_def)

text \<open>
  C7.  \<^const>\<open>extractMeta\<close> returns a record for every page: the one its \<^verbatim>\<open>try\<close> block
  computes, or exactly the default record (empty company, empty title, source
  \<^verbatim>\<open>Other\<close>) when the block throws, as it does when the metadata script or the parsing
  of the page's URL throws.  A host name that contains no domain of the job-board table
  has the source \<^verbatim>\<open>Other\<close>.
\<close>

theorem extractMeta_never_fails:
  "fst (extractMeta p t) = (case fst (extractMeta_try p t) of Inl e \<Rightarrow> defaultMeta | Inr m \<Rightarrow> m)
   \<and> (document_of p t = Inl e \<longrightarrow> fst (extractMeta p t) = defaultMeta)
   \<and> (hostname_of p (t @ [Evaluate MetaScript]) = Inl e \<longrightarrow> fst (extractMeta p t) = defaultMeta)
   \<and> defaultMeta = \<lparr>company = [], title = [], source = ''Other''\<rparr>
   \<and> ((\<forall>d \<in> set (map fst sourceMap). \<not> sublist d hostname)
        \<longrightarrow> getJobBoardSource hostname = ''Other'')"
proof -
  have a: "fst (extractMeta p t) = (case fst (extractMeta_try p t) of Inl e \<Rightarrow> defaultMeta | Inr m \<Rightarrow> m)"
    by (simp add: extractMeta_def split: prod.splits sum.splits)
  have b: "document_of p t = Inl e \<longrightarrow> fst (extractMeta p t) = defaultMeta"
    by (simp add: extractMeta_def extractMeta_try_document)
  have c: "hostname_of p (t @ [Evaluate MetaScript]) = Inl e \<longrightarrow> fst (extractMeta p t) = defaultMeta"
    by (cases "document_of p t")
       (simp_all add: extractMeta_def extractMeta_try_document extractMeta_try_hostname)
  have d: "defaultMeta = \<lparr>company = [], title = [], source = ''Other''\<rparr>"
    by (simp add: defaultMeta_def)
  show ?thesis using a b c d getJobBoardSource_no_match by blast
qed

theorem extractMeta_never_fails_witness:
  "document_of (blankPage\<lparr>document_of := \<lambda>h. Inl (Error ''boom'')\<rparr>) [] = Inl (Error ''boom'')
   \<and> fst (extractMeta (blankPage\<lparr>document_of := \<lambda>h. Inl (Error ''boom'')\<rparr>) []) = defaultMeta
   \<and> hostname_of (blankPage\<lparr>hostname_of := \<lambda>h. Inl (Error ''Invalid URL'')\<rparr>) [Evaluate MetaScript]
       = Inl (Error ''Invalid URL'')
   \<and> fst (extractMeta (blankPage\<lparr>hostname_of := \<lambda>h. Inl (Error ''Invalid URL'')\<rparr>) []) = defaultMeta
   \<and> list_all (\<lambda>d. \<not> sublist d ''example.com'') (map fst sourceMap)
   \<and> getJobBoardSource ''example.com'' = ''Other''"
proof -
  let ?p = "blankPage\<lparr>document_of := \<lambda>h. Inl (Error ''boom'')\<rparr>"
  let ?q = "blankPage\<lparr>hostname_of := \<lambda>h. Inl (Error ''Invalid URL'')\<rparr>"
  have h1: "document_of ?p [] = Inl (Error ''boom'')" by simp
  have h2: "hostname_of ?q ([] @ [Evaluate MetaScript]) = Inl (Error ''Invalid URL'')" by simp
  have h3: "\<forall>d \<in> set (map fst sourceMap). \<not> sublist d ''example.com''"
    by (simp add: sourceMap_def sublist_code)
  have c1: "fst (extractMeta ?p []) = defaultMeta"
    using extractMeta_never_fails [of ?p "[]" "Error ''boom''" "''example.com''"] h1 by blast
  have c2: "fst (extractMeta ?q []) = defaultMeta"
    using extractMeta_never_fails [of ?q "[]" "Error ''Invalid URL''" "''example.com''"] h2 by blast
  have c3: "getJobBoardSource ''example.com'' = ''Other''"
    using extractMeta_never_fails [of ?p "[]" "Error ''boom''" "''example.com''"] h3 by blast
  show ?thesis using h1 h2 h3 c1 c2 c3 by (simp add: list_all_iff)
qed

subsection \<open>Empty values\<close>

text \<open>
  C3.  With an absent or empty value, each of the five field-resolution operations
  (text fill, generic fill, select, radio, file upload) returns false and issues no call
  to the driver at all, so nothing is written.
\<close>

theorem empty_value_is_skipped:
  "fillTextByLabel p labels None t = (False, t)
   \<and> fillTextByLabel p labels (Some []) t = (False, t)
   \<and> fillGenericField p fieldType None t = (False, t)
   \<and> fillGenericField p fieldType (Some []) t = (False, t)
   \<and> selectByLabel p labels None t = (False, t)
   \<and> selectByLabel p labels (Some []) t = (False, t)
   \<and> clickRadioByLabel p labels None t = (False, t)
   \<and> clickRadioByLabel p labels (Some []) t = (False, t)
   \<and> setFileByLabel p labels None t = (False, t)
   \<and> setFileByLabel p labels (Some []) t = (False, t)"
  by (simp add: fillTextByLabel_def fillGenericField_def selectByLabel_def
        clickRadioByLabel_def setFileByLabel_def)

subsection \<open>The submit step\<close>





subsection \<open>The writes of the helpers\<close>


lemma writesSince_self [simp]: "writesSince t t = []"
  by (simp add: writesSince_def)











subsection \<open>The calls only grow\<close>

lemma ext_fillFirst:
  "prefix t0 t \<Longrightarrow> fillFirst p loc ls v t = (r, t') \<Longrightarrow> prefix t0 t'"
  by (induction ls arbitrary: t)
     (auto simp: count_def perform_def split: sum.splits option.splits if_splits
           intro: prefix_prefix)

lemma ext_fillTextByLabel:
  "prefix t0 t \<Longrightarrow> fillTextByLabel p ls v t = (r, t') \<Longrightarrow> prefix t0 t'"
  by (auto simp: fillTextByLabel_def split: option.splits if_splits prod.splits bool.splits
           dest: ext_fillFirst)

lemma ext_checkOrClick:
  "prefix t0 t \<Longrightarrow> checkOrClick p l t = (r, t') \<Longrightarrow> prefix t0 t'"
  by (auto simp: checkOrClick_def perform_def split: option.splits intro: prefix_prefix)

lemma ext_clickRadioInGroups:
  "prefix t0 t \<Longrightarrow> clickRadioInGroups p ls opt t = (r, t') \<Longrightarrow> prefix t0 t'"
  by (induction ls arbitrary: t)
     (auto simp: count_def split: sum.splits option.splits if_splits prod.splits
           intro: prefix_prefix dest: ext_checkOrClick [rotated])


lemma ext_clickRadioByLabel:
  "prefix t0 t \<Longrightarrow> clickRadioByLabel p ls v t = (r, t') \<Longrightarrow> prefix t0 t'"
  by (auto simp: clickRadioByLabel_def count_def
           split: option.splits if_splits prod.splits bool.splits sum.splits
           intro: prefix_prefix dest: ext_clickRadioInGroups ext_checkOrClick [rotated])

lemma ext_selectOrFill:
  "prefix t0 t \<Longrightarrow> selectOrFill p l v t = (r, t') \<Longrightarrow> prefix t0 t'"
  by (auto simp: selectOrFill_def perform_def split: option.splits intro: prefix_prefix)

lemma ext_selectFirst:
  "prefix t0 t \<Longrightarrow> selectFirst p ls v t = (r, t') \<Longrightarrow> prefix t0 t'"
  by (induction ls arbitrary: t)
     (auto simp: count_def split: sum.splits option.splits if_splits prod.splits
           intro: prefix_prefix dest: ext_selectOrFill [rotated])

lemma ext_fillOrType:
  "prefix t0 t \<Longrightarrow> fillOrType p l v t = (r, t') \<Longrightarrow> prefix t0 t'"
  by (auto simp: fillOrType_def perform_def split: option.splits intro: prefix_prefix)

lemma ext_typeIntoCombobox:
  "prefix t0 t \<Longrightarrow> typeIntoCombobox p ls v t = (r, t') \<Longrightarrow> prefix t0 t'"
  by (induction ls arbitrary: t)
     (auto simp: count_def split: sum.splits option.splits if_splits prod.splits
           intro: prefix_prefix dest: ext_fillOrType [rotated])

lemma ext_selectByLabel:
  "prefix t0 t \<Longrightarrow> selectByLabel p ls v t = (r, t') \<Longrightarrow> prefix t0 t'"
  by (auto simp: selectByLabel_def split: option.splits if_splits prod.splits bool.splits
           dest: ext_selectFirst ext_typeIntoCombobox)

lemma ext_setFileFirst:
  "prefix t0 t \<Longrightarrow> setFileFirst p ls v t = (r, t') \<Longrightarrow> prefix t0 t'"
  by (induction ls arbitrary: t)
     (auto simp: count_def perform_def split: sum.splits option.splits if_splits
           intro: prefix_prefix)

lemma ext_setFileByLabel:
  "prefix t0 t \<Longrightarrow> setFileByLabel p ls v t = (r, t') \<Longrightarrow> prefix t0 t'"
  by (auto simp: setFileByLabel_def count_def perform_def
           split: option.splits if_splits prod.splits bool.splits sum.splits
           intro: prefix_prefix dest: ext_setFileFirst)

lemma ext_findFirstVisibleSelector:
  "prefix t0 t \<Longrightarrow> findFirstVisibleSelector p ss t = (r, t') \<Longrightarrow> prefix t0 t'"
  by (induction ss arbitrary: t)
     (auto simp: count_def visibleOrTrue_def isVisible_def
           split: sum.splits if_splits prod.splits bool.splits
           intro: prefix_prefix)

lemma ext_fillIfVisible:
  "prefix t0 t \<Longrightarrow> fillIfVisible p l v t = (r, t') \<Longrightarrow> prefix t0 t'"
  by (auto simp: fillIfVisible_def count_def visibleOrTrue_def isVisible_def perform_def
           split: sum.splits if_splits prod.splits bool.splits option.splits
           intro: prefix_prefix)

lemma ext_fillBySelectors:
  "prefix t0 t \<Longrightarrow> fillBySelectors p ss v t = (r, t') \<Longrightarrow> prefix t0 t'"
  by (induction ss arbitrary: t)
     (auto split: prod.splits bool.splits dest: ext_fillIfVisible)

lemma ext_fillGenericField:
  "prefix t0 t \<Longrightarrow> fillGenericField p ft v t = (r, t') \<Longrightarrow> prefix t0 t'"
  by (auto simp: fillGenericField_def split: option.splits if_splits prod.splits bool.splits
           dest: ext_fillBySelectors ext_fillIfVisible)


lemma prefix_if: "prefix t0 a \<Longrightarrow> prefix t0 b \<Longrightarrow> prefix t0 (if c then a else b)"
  by simp

lemma ext_snd_fillTextByLabel:
  "prefix t0 t \<Longrightarrow> prefix t0 (snd (fillTextByLabel p ls v t))"
  using ext_fillTextByLabel by (metis prod.collapse)

lemma ext_snd_selectByLabel:
  "prefix t0 t \<Longrightarrow> prefix t0 (snd (selectByLabel p ls v t))"
  using ext_selectByLabel by (metis prod.collapse)

lemma ext_snd_clickRadioByLabel:
  "prefix t0 t \<Longrightarrow> prefix t0 (snd (clickRadioByLabel p ls v t))"
  using ext_clickRadioByLabel by (metis prod.collapse)

lemma ext_snd_setFileByLabel:
  "prefix t0 t \<Longrightarrow> prefix t0 (snd (setFileByLabel p ls v t))"
  using ext_setFileByLabel by (metis prod.collapse)

lemma ext_pageFill: "prefix t0 t \<Longrightarrow> prefix t0 (pageFill p sel v t)"
  by (simp add: pageFill_def perform_def prefix_prefix)

lemma ext_fillNames:
  assumes "prefix t0 t"
  shows "prefix t0 (fillNames p fs ls fus fl ll u t)"
proof -
  obtain f t1 where f: "findFirstVisibleSelector p fs t = (f, t1)" by fastforce
  obtain l t2 where l: "findFirstVisibleSelector p ls t1 = (l, t2)" by fastforce
  obtain fu t3 where fu: "findFirstVisibleSelector p fus t2 = (fu, t3)" by fastforce
  have "prefix t0 t1" using ext_findFirstVisibleSelector [OF assms f] .
  then have "prefix t0 t2" using ext_findFirstVisibleSelector l by blast
  then have 3: "prefix t0 t3" using ext_findFirstVisibleSelector fu by blast
  have "fillNames p fs ls fus fl ll u t =
        (if truthy f \<and> truthy l then
           pageFill p (the l) (lastName u) (pageFill p (the f) (firstName u) t3)
         else if \<not> truthy f \<and> \<not> truthy l \<and> truthy fu then
           pageFill p (the fu) (firstName u @ '' '' @ lastName u) t3
         else snd (fillTextByLabel p ll (Some (lastName u))
                (snd (fillTextByLabel p fl (Some (firstName u)) t3))))"
    using f l fu by (simp add: fillNames_def)
  then show ?thesis
    using 3 by (simp only:) (intro prefix_if ext_pageFill ext_snd_fillTextByLabel)
qed

lemma ext_fillFirstUrlField:
  "prefix t0 t \<Longrightarrow> prefix t0 (fillFirstUrlField p v t)"
  by (auto simp: fillFirstUrlField_def count_def perform_def split: sum.splits intro: prefix_prefix)

lemma ext_fillContact:
  assumes "prefix t0 t"
  shows "prefix t0 (fillContact p u t)"
proof -
  obtain r1 t1 where 1: "fillGenericField p ''email'' (Some (email u)) t = (r1, t1)" by fastforce
  obtain r2 t2 where 2: "fillGenericField p ''phone'' (phone u) t1 = (r2, t2)" by fastforce
  obtain r3 t3 where 3: "fillGenericField p ''salary'' (salary u) t2 = (r3, t3)" by fastforce
  obtain r4 t4 where 4: "fillGenericField p ''linkedin'' (js_or (linkedin u) (Some [])) t3 = (r4, t4)"
    by fastforce
  obtain r5 t5 where 5: "fillGenericField p ''github'' (js_or (github u) (Some [])) t4 = (r5, t5)"
    by fastforce
  obtain r6 t6 where 6: "fillGenericField p ''website'' (js_or (website u) (Some [])) t5 = (r6, t6)"
    by fastforce
  have "prefix t0 t1" using ext_fillGenericField [OF assms 1] .
  then have "prefix t0 t2" using ext_fillGenericField 2 by blast
  then have "prefix t0 t3" using ext_fillGenericField 3 by blast
  then have "prefix t0 t4" using ext_fillGenericField 4 by blast
  then have "prefix t0 t5" using ext_fillGenericField 5 by blast
  then have p6: "prefix t0 t6" using ext_fillGenericField 6 by blast
  show ?thesis
    unfolding fillContact_def Let_def 1 2 3 4 5 6 prod.case
    using p6 by (intro prefix_if ext_fillFirstUrlField ext_snd_fillTextByLabel)
qed

lemma ext_fillQuestions:
  "prefix t0 t \<Longrightarrow> prefix t0 (fillQuestions p gl cl xl nl sl rl u t)"
  unfolding fillQuestions_def Let_def
  by (intro prefix_if ext_snd_fillTextByLabel ext_snd_selectByLabel ext_snd_clickRadioByLabel)

lemma ext_fillForm:
  "prefix t0 t \<Longrightarrow> prefix t0 (fillForm p u t)"
  unfolding fillForm_def Let_def
  by (intro ext_fillQuestions ext_snd_setFileByLabel ext_fillContact ext_fillNames)

subsection \<open>Name fields\<close>


















subsection \<open>Defaults for omitted answers\<close>

lemma selectByLabel_hit:
  assumes "v \<noteq> []" "answers p l (SelectLabel (First (GetByLabel l)) v)"
  shows "selectByLabel p (l # ls) (Some v) t =
           (True, t @ [Count (GetByLabel l), SelectLabel (First (GetByLabel l)) v])"
  using assms
  by (simp add: answers_def selectByLabel_def count_def selectOrFill_def perform_def)

lemma fillTextByLabel_hit:
  assumes "v \<noteq> []" "answers p l (Fill (First (GetByLabel l)) v)"
  shows "fillTextByLabel p (l # ls) (Some v) t =
           (True, t @ [Count (GetByLabel l), Fill (First (GetByLabel l)) v])"
  using assms
  by (simp add: answers_def fillTextByLabel_def count_def perform_def)

lemma write_between:
  assumes "prefix t t1" "prefix (t1 @ [c, w]) t'" "is_write w"
  shows "w \<in> set (writesSince t t')"
proof -
  from assms(1) obtain a where a: "t1 = t @ a" by (auto simp: prefix_def)
  from assms(2) obtain b where b: "t' = (t1 @ [c, w]) @ b" by (auto simp: prefix_def)
  have "t' = t @ (a @ [c, w] @ b)" using a b by simp
  then have "writesSince t t' = filter is_write (a @ [c, w] @ b)"
    by (simp add: writesSince_def)
  with assms(3) show ?thesis by simp
qed

text \<open>The steps of the questions, one after the other.\<close>

lemma fillQuestions_country:
  assumes "prefix t0 t" "location u = None"
      and "answers p c0 (SelectLabel (First (GetByLabel c0)) ''Germany'')"
  shows "SelectLabel (First (GetByLabel c0)) ''Germany''
           \<in> set (writesSince t0 (fillQuestions p gl (c0 # cl) xl nl sl rl u t))"
proof -
  define t1 where "t1 = (if truthy (gender u) then snd (clickRadioByLabel p gl (gender u) t) else t)"
  let ?w = "SelectLabel (First (GetByLabel c0)) ''Germany''"
  let ?t2 = "t1 @ [Count (GetByLabel c0), ?w]"
  have p1: "prefix t0 t1"
    unfolding t1_def using assms(1) by (intro prefix_if ext_snd_clickRadioByLabel)
  have s: "snd (selectByLabel p (c0 # cl) (js_or (location u) (Some ''Germany'')) t1) = ?t2"
    using assms by (simp add: js_or_def truthy_def selectByLabel_hit)
  have "prefix ?t2 (fillQuestions p gl (c0 # cl) xl nl sl rl u t)"
    unfolding fillQuestions_def Let_def t1_def [symmetric] s
    by (intro ext_snd_fillTextByLabel ext_snd_selectByLabel) simp
  then show ?thesis using p1 by (intro write_between [of t0 t1]) simp_all
qed

lemma fillQuestions_tax:
  assumes "prefix t0 t" "taxResidence u = None"
      and "answers p x0 (SelectLabel (First (GetByLabel x0)) ''Germany'')"
  shows "SelectLabel (First (GetByLabel x0)) ''Germany''
           \<in> set (writesSince t0 (fillQuestions p gl cl (x0 # xl) nl sl rl u t))"
proof -
  define t2 where "t2 = snd (selectByLabel p cl (js_or (location u) (Some ''Germany''))
                     (if truthy (gender u) then snd (clickRadioByLabel p gl (gender u) t) else t))"
  let ?w = "SelectLabel (First (GetByLabel x0)) ''Germany''"
  let ?t3 = "t2 @ [Count (GetByLabel x0), ?w]"
  have p2: "prefix t0 t2"
    unfolding t2_def using assms(1)
    by (intro prefix_if ext_snd_clickRadioByLabel ext_snd_selectByLabel)
  have s: "snd (selectByLabel p (x0 # xl) (js_or (taxResidence u) (Some ''Germany'')) t2) = ?t3"
    using assms by (simp add: js_or_def truthy_def selectByLabel_hit)
  have "prefix ?t3 (fillQuestions p gl cl (x0 # xl) nl sl rl u t)"
    unfolding fillQuestions_def Let_def t2_def [symmetric] s
    by (intro ext_snd_fillTextByLabel) simp
  then show ?thesis using p2 by (intro write_between [of t0 t2]) simp_all
qed

lemma fillQuestions_notice:
  assumes "prefix t0 t" "noticePeriod u = None"
      and "answers p n0 (Fill (First (GetByLabel n0)) ''Immediate'')"
  shows "Fill (First (GetByLabel n0)) ''Immediate''
           \<in> set (writesSince t0 (fillQuestions p gl cl xl (n0 # nl) sl rl u t))"
proof -
  define t3 where "t3 = snd (selectByLabel p xl (js_or (taxResidence u) (Some ''Germany''))
                    (snd (selectByLabel p cl (js_or (location u) (Some ''Germany''))
                     (if truthy (gender u) then snd (clickRadioByLabel p gl (gender u) t) else t))))"
  let ?w = "Fill (First (GetByLabel n0)) ''Immediate''"
  let ?t4 = "t3 @ [Count (GetByLabel n0), ?w]"
  have p3: "prefix t0 t3"
    unfolding t3_def using assms(1)
    by (intro prefix_if ext_snd_clickRadioByLabel ext_snd_selectByLabel)
  have s: "snd (fillTextByLabel p (n0 # nl) (js_or (noticePeriod u) (Some ''Immediate'')) t3) = ?t4"
    using assms by (simp add: js_or_def truthy_def fillTextByLabel_hit)
  have "prefix ?t4 (fillQuestions p gl cl xl (n0 # nl) sl rl u t)"
    unfolding fillQuestions_def Let_def t3_def [symmetric] s
    by (intro ext_snd_fillTextByLabel) simp
  then show ?thesis using p3 by (intro write_between [of t0 t3]) simp_all
qed

lemma fillQuestions_salary:
  assumes "prefix t0 t" "salary u = None"
      and "answers p s0 (Fill (First (GetByLabel s0)) ''Flexible'')"
  shows "Fill (First (GetByLabel s0)) ''Flexible''
           \<in> set (writesSince t0 (fillQuestions p gl cl xl nl (s0 # sl) rl u t))"
proof -
  define t4 where "t4 = snd (fillTextByLabel p nl (js_or (noticePeriod u) (Some ''Immediate''))
                   (snd (selectByLabel p xl (js_or (taxResidence u) (Some ''Germany''))
                    (snd (selectByLabel p cl (js_or (location u) (Some ''Germany''))
                     (if truthy (gender u) then snd (clickRadioByLabel p gl (gender u) t) else t))))))"
  let ?w = "Fill (First (GetByLabel s0)) ''Flexible''"
  let ?t5 = "t4 @ [Count (GetByLabel s0), ?w]"
  have p4: "prefix t0 t4"
    unfolding t4_def using assms(1)
    by (intro prefix_if ext_snd_clickRadioByLabel ext_snd_selectByLabel ext_snd_fillTextByLabel)
  have s: "snd (fillTextByLabel p (s0 # sl) (js_or (salary u) (Some ''Flexible'')) t4) = ?t5"
    using assms by (simp add: js_or_def truthy_def fillTextByLabel_hit)
  have "prefix ?t5 (fillQuestions p gl cl xl nl (s0 # sl) rl u t)"
    unfolding fillQuestions_def Let_def t4_def [symmetric] s
    by (intro ext_snd_fillTextByLabel) simp
  then show ?thesis using p4 by (intro write_between [of t0 t4]) simp_all
qed

lemma fillForm_questions:
  "\<exists>t3. prefix t t3 \<and>
     fillForm p u t = fillQuestions p FIELD_LABELS_gender FIELD_LABELS_country FIELD_LABELS_tax
                        FIELD_LABELS_notice FIELD_LABELS_salary FIELD_LABELS_referred u t3"
proof -
  let ?t3 = "snd (setFileByLabel p FIELD_LABELS_cv (Some (resumePath u))
               (fillContact p u
                 (fillNames p FIRST_NAME_SELECTORS LAST_NAME_SELECTORS FULL_NAME_SELECTORS
                    FIELD_LABELS_firstName FIELD_LABELS_lastName u t)))"
  have "prefix t ?t3"
    by (intro ext_snd_setFileByLabel ext_fillContact ext_fillNames) simp
  moreover have "fillForm p u t =
      fillQuestions p FIELD_LABELS_gender FIELD_LABELS_country FIELD_LABELS_tax
        FIELD_LABELS_notice FIELD_LABELS_salary FIELD_LABELS_referred u ?t3"
    by (simp add: fillForm_def Let_def)
  ultimately show ?thesis by blast
qed

lemma js_or_None: "js_or None b = b"
  by (simp add: js_or_def truthy_def)

lemma js_or_Some: "v \<noteq> [] \<Longrightarrow> js_or (Some v) b = Some v"
  by (simp add: js_or_def truthy_def)

lemma fillNames_cong:
  assumes "firstName u = firstName u'" "lastName u = lastName u'"
  shows "fillNames p fs ls fus fl ll u t = fillNames p fs ls fus fl ll u' t"
  unfolding fillNames_def assms ..

lemma fillContact_cong:
  assumes "email u = email u'" "phone u = phone u'" "salary u = salary u'"
    "linkedin u = linkedin u'" "github u = github u'" "website u = website u'"
  shows "fillContact p u t = fillContact p u' t"
  unfolding fillContact_def assms ..

lemma fillQuestions_cong:
  "gender u = gender u' \<Longrightarrow>
   js_or (location u) (Some ''Germany'') = js_or (location u') (Some ''Germany'') \<Longrightarrow>
   js_or (taxResidence u) (Some ''Germany'') = js_or (taxResidence u') (Some ''Germany'') \<Longrightarrow>
   js_or (noticePeriod u) (Some ''Immediate'') = js_or (noticePeriod u') (Some ''Immediate'') \<Longrightarrow>
   js_or (salary u) (Some ''Flexible'') = js_or (salary u') (Some ''Flexible'') \<Longrightarrow>
   referredBy u = referredBy u' \<Longrightarrow>
   fillQuestions p gl cl xl nl sl rl u t = fillQuestions p gl cl xl nl sl rl u' t"
  by (simp add: fillQuestions_def)

lemma fillForm_cong:
  assumes "firstName u = firstName u'" "lastName u = lastName u'" "email u = email u'"
    "resumePath u = resumePath u'" "phone u = phone u'" "salary u = salary u'"
    "linkedin u = linkedin u'" "github u = github u'" "website u = website u'"
    "gender u = gender u'" "referredBy u = referredBy u'"
    "js_or (location u) (Some ''Germany'') = js_or (location u') (Some ''Germany'')"
    "js_or (taxResidence u) (Some ''Germany'') = js_or (taxResidence u') (Some ''Germany'')"
    "js_or (noticePeriod u) (Some ''Immediate'') = js_or (noticePeriod u') (Some ''Immediate'')"
  shows "fillForm p u t = fillForm p u' t"
proof -
  have n: "fillNames p fs ls fus fl ll u t = fillNames p fs ls fus fl ll u' t" for fs ls fus fl ll t
    using assms by (intro fillNames_cong)
  have c: "fillContact p u t = fillContact p u' t" for t
    using assms by (intro fillContact_cong)
  have q: "fillQuestions p gl cl xl nl sl rl u t = fillQuestions p gl cl xl nl sl rl u' t"
    for gl cl xl nl sl rl t
    using assms by (intro fillQuestions_cong) simp_all
  show ?thesis unfolding fillForm_def Let_def n c q assms(4) ..
qed

lemma fillFormAuto_cong:
  assumes "firstName u = firstName u'" "lastName u = lastName u'" "email u = email u'"
    "resumePath u = resumePath u'" "phone u = phone u'"
    "linkedin u = linkedin u'" "website u = website u'"
    "gender u = gender u'" "referredBy u = referredBy u'"
    "js_or (location u) (Some ''Germany'') = js_or (location u') (Some ''Germany'')"
    "js_or (taxResidence u) (Some ''Germany'') = js_or (taxResidence u') (Some ''Germany'')"
    "js_or (noticePeriod u) (Some ''Immediate'') = js_or (noticePeriod u') (Some ''Immediate'')"
    "js_or (salary u) (Some ''Flexible'') = js_or (salary u') (Some ''Flexible'')"
  shows "fillFormAuto p u t = fillFormAuto p u' t"
proof -
  have n: "fillNames p fs ls fus fl ll u t = fillNames p fs ls fus fl ll u' t" for fs ls fus fl ll t
    using assms by (intro fillNames_cong)
  have q: "fillQuestions p gl cl xl nl sl rl u t = fillQuestions p gl cl xl nl sl rl u' t"
    for gl cl xl nl sl rl t
    using assms by (intro fillQuestions_cong) simp_all
  show ?thesis unfolding fillFormAuto_def Let_def n q assms(3-7) ..
qed

lemma default_auto:
  assumes "location u = None" "taxResidence u = None" "noticePeriod u = None" "salary u = None"
  shows "fillFormAuto p u t =
         fillFormAuto p (u\<lparr>location := Some ''Germany'', taxResidence := Some ''Germany'',
                            noticePeriod := Some ''Immediate'', salary := Some ''Flexible''\<rparr>) t"
  using assms by (intro fillFormAuto_cong) (simp_all add: js_or_None js_or_Some)

lemma default_location:
  "location u = None \<Longrightarrow> fillForm p u t = fillForm p (u\<lparr>location := Some ''Germany''\<rparr>) t"
  by (rule fillForm_cong) (simp_all add: js_or_None js_or_Some)

lemma default_taxResidence:
  "taxResidence u = None \<Longrightarrow> fillForm p u t = fillForm p (u\<lparr>taxResidence := Some ''Germany''\<rparr>) t"
  by (rule fillForm_cong) (simp_all add: js_or_None js_or_Some)

lemma default_noticePeriod:
  "noticePeriod u = None \<Longrightarrow> fillForm p u t = fillForm p (u\<lparr>noticePeriod := Some ''Immediate''\<rparr>) t"
  by (rule fillForm_cong) (simp_all add: js_or_None js_or_Some)

lemma default_salary:
  "salary u = None \<Longrightarrow>
     fillQuestions p gl cl xl nl sl rl u t
       = fillQuestions p gl cl xl nl sl rl (u\<lparr>salary := Some ''Flexible''\<rparr>) t"
  by (rule fillQuestions_cong) (simp_all add: js_or_None js_or_Some)

text \<open>
  C10.  A profile without location, tax residence, notice period or salary does not make
  the runner skip these questions: the form is filled exactly as for a profile that gives
  \<^verbatim>\<open>Germany\<close>, \<^verbatim>\<open>Germany\<close> and \<^verbatim>\<open>Immediate\<close>, and the questions as for one that gives the
  salary \<^verbatim>\<open>Flexible\<close> as well; in the runner with the auto-submit option the whole form
  is filled as for the four defaults.  On a page that shows a control for the first label
  of the field and accepts the write, the default value is written.
\<close>

theorem omitted_fields_get_defaults:
  "(location u = None \<longrightarrow> fillForm p u t = fillForm p (u\<lparr>location := Some ''Germany''\<rparr>) t)
   \<and> (taxResidence u = None \<longrightarrow> fillForm p u t = fillForm p (u\<lparr>taxResidence := Some ''Germany''\<rparr>) t)
   \<and> (noticePeriod u = None \<longrightarrow> fillForm p u t = fillForm p (u\<lparr>noticePeriod := Some ''Immediate''\<rparr>) t)
   \<and> (salary u = None \<longrightarrow>
        fillQuestions p gl cl xl nl sl rl u t
          = fillQuestions p gl cl xl nl sl rl (u\<lparr>salary := Some ''Flexible''\<rparr>) t)
   \<and> (location u = None \<and> taxResidence u = None \<and> noticePeriod u = None \<and> salary u = None
        \<longrightarrow> fillFormAuto p u t =
              fillFormAuto p (u\<lparr>location := Some ''Germany'', taxResidence := Some ''Germany'',
                                 noticePeriod := Some ''Immediate'', salary := Some ''Flexible''\<rparr>) t)
   \<and> (location u = None
        \<and> answers p ''What country do you currently live in''
            (SelectLabel (First (GetByLabel ''What country do you currently live in'')) ''Germany'')
        \<longrightarrow> SelectLabel (First (GetByLabel ''What country do you currently live in'')) ''Germany''
              \<in> set (writesSince t (fillForm p u t)))
   \<and> (taxResidence u = None
        \<and> answers p ''Tax residence'' (SelectLabel (First (GetByLabel ''Tax residence'')) ''Germany'')
        \<longrightarrow> SelectLabel (First (GetByLabel ''Tax residence'')) ''Germany''
              \<in> set (writesSince t (fillForm p u t)))
   \<and> (noticePeriod u = None
        \<and> answers p ''Notice period'' (Fill (First (GetByLabel ''Notice period'')) ''Immediate'')
        \<longrightarrow> Fill (First (GetByLabel ''Notice period'')) ''Immediate''
              \<in> set (writesSince t (fillForm p u t)))
   \<and> (salary u = None
        \<and> answers p ''Salary expectations'' (Fill (First (GetByLabel ''Salary expectations'')) ''Flexible'')
        \<longrightarrow> Fill (First (GetByLabel ''Salary expectations'')) ''Flexible''
              \<in> set (writesSince t (fillForm p u t)))"
proof -
  obtain t3 where t3: "prefix t t3"
    "fillForm p u t = fillQuestions p FIELD_LABELS_gender FIELD_LABELS_country FIELD_LABELS_tax
                        FIELD_LABELS_notice FIELD_LABELS_salary FIELD_LABELS_referred u t3"
    using fillForm_questions by blast
  have c: "location u = None
        \<and> answers p ''What country do you currently live in''
            (SelectLabel (First (GetByLabel ''What country do you currently live in'')) ''Germany'')
        \<longrightarrow> SelectLabel (First (GetByLabel ''What country do you currently live in'')) ''Germany''
              \<in> set (writesSince t (fillForm p u t))"
    using fillQuestions_country [OF t3(1)] unfolding t3(2) FIELD_LABELS_country_def by blast
  have x: "taxResidence u = None
        \<and> answers p ''Tax residence'' (SelectLabel (First (GetByLabel ''Tax residence'')) ''Germany'')
        \<longrightarrow> SelectLabel (First (GetByLabel ''Tax residence'')) ''Germany''
              \<in> set (writesSince t (fillForm p u t))"
    using fillQuestions_tax [OF t3(1)] unfolding t3(2) FIELD_LABELS_tax_def by blast
  have n: "noticePeriod u = None
        \<and> answers p ''Notice period'' (Fill (First (GetByLabel ''Notice period'')) ''Immediate'')
        \<longrightarrow> Fill (First (GetByLabel ''Notice period'')) ''Immediate''
              \<in> set (writesSince t (fillForm p u t))"
    using fillQuestions_notice [OF t3(1)] unfolding t3(2) FIELD_LABELS_notice_def by blast
  have s: "salary u = None
        \<and> answers p ''Salary expectations'' (Fill (First (GetByLabel ''Salary expectations'')) ''Flexible'')
        \<longrightarrow> Fill (First (GetByLabel ''Salary expectations'')) ''Flexible''
              \<in> set (writesSince t (fillForm p u t))"
    using fillQuestions_salary [OF t3(1)] unfolding t3(2) FIELD_LABELS_salary_def by blast
  have e1: "location u = None \<longrightarrow> fillForm p u t = fillForm p (u\<lparr>location := Some ''Germany''\<rparr>) t"
    using default_location by blast
  have e2: "taxResidence u = None
      \<longrightarrow> fillForm p u t = fillForm p (u\<lparr>taxResidence := Some ''Germany''\<rparr>) t"
    using default_taxResidence by blast
  have e3: "noticePeriod u = None
      \<longrightarrow> fillForm p u t = fillForm p (u\<lparr>noticePeriod := Some ''Immediate''\<rparr>) t"
    using default_noticePeriod by blast
  have e4: "salary u = None \<longrightarrow>
        fillQuestions p gl cl xl nl sl rl u t
          = fillQuestions p gl cl xl nl sl rl (u\<lparr>salary := Some ''Flexible''\<rparr>) t"
    using default_salary by blast
  have e5: "location u = None \<and> taxResidence u = None \<and> noticePeriod u = None \<and> salary u = None
        \<longrightarrow> fillFormAuto p u t =
              fillFormAuto p (u\<lparr>location := Some ''Germany'', taxResidence := Some ''Germany'',
                                 noticePeriod := Some ''Immediate'', salary := Some ''Flexible''\<rparr>) t"
    using default_auto by blast
  show ?thesis by (intro conjI e1 e2 e3 e4 e5 c x n s)
qed

theorem omitted_fields_get_defaults_witness:
  "location minimalUser = None \<and> taxResidence minimalUser = None
   \<and> noticePeriod minimalUser = None \<and> salary minimalUser = None
   \<and> SelectLabel (First (GetByLabel ''What country do you currently live in'')) ''Germany''
        \<in> set (writesSince [] (fillForm labelledPage minimalUser []))
   \<and> SelectLabel (First (GetByLabel ''Tax residence'')) ''Germany''
        \<in> set (writesSince [] (fillForm labelledPage minimalUser []))
   \<and> Fill (First (GetByLabel ''Notice period'')) ''Immediate''
        \<in> set (writesSince [] (fillForm labelledPage minimalUser []))
   \<and> Fill (First (GetByLabel ''Salary expectations'')) ''Flexible''
        \<in> set (writesSince [] (fillForm labelledPage minimalUser []))"
proof -
  have u: "location minimalUser = None" "taxResidence minimalUser = None"
          "noticePeriod minimalUser = None" "salary minimalUser = None"
    by (simp_all add: minimalUser_def)
  have a: "answers labelledPage l c" for l c
    by (simp add: answers_def labelledPage_def blankPage_def count_of_def)
  show ?thesis
    using omitted_fields_get_defaults [where u = minimalUser and p = labelledPage and t = "[]"] u a
    by blast
qed

subsection \<open>The generic cascade\<close>




















subsection \<open>Form stability\<close>

lemma five_1500:
  "waitForFormStability fivePage 1500 [] =
     (Inr False, [Evaluate FieldCountScript, WaitForTimeout 500, Evaluate FieldCountScript,
                  WaitForTimeout 500, Evaluate FieldCountScript, WaitForTimeout 500])"
  by (simp add: waitForFormStability_def waitForFormStability_loop.simps fivePage_def blankPage_def
        perform_def)

lemma five_5000:
  "waitForFormStability fivePage 5000 [] =
     (Inr True, [Evaluate FieldCountScript, WaitForTimeout 500, Evaluate FieldCountScript,
                  WaitForTimeout 500, Evaluate FieldCountScript, WaitForTimeout 500,
                  Evaluate FieldCountScript])"
  by (simp add: waitForFormStability_def waitForFormStability_loop.simps fivePage_def blankPage_def
        perform_def)

lemma pollHistory_0 [simp]: "pollHistory t 0 = t"
  by (simp add: pollHistory_def)

lemma concat_replicate_Suc: "concat (replicate (Suc i) x) = concat (replicate i x) @ x"
  by (induction i) simp_all

lemma pollHistory_Suc:
  "pollHistory t (Suc i) = pollHistory t i @ [Evaluate FieldCountScript, WaitForTimeout 500]"
  unfolding pollHistory_def concat_replicate_Suc by simp

lemma streak_stable: "(3 \<le> streak cs (Suc k)) = stableAt cs k"
proof
  assume a: "3 \<le> streak cs (Suc k)"
  then have m0: "matchesPrevious cs k" and s0: "2 \<le> streak cs k" by (auto split: if_splits)
  from s0 obtain k1 where k1: "k = Suc k1" by (cases k) auto
  with s0 have m1: "matchesPrevious cs k1" and s1: "1 \<le> streak cs k1" by (auto split: if_splits)
  from s1 obtain k2 where k2: "k1 = Suc k2" by (cases k1) auto
  with s1 have m2: "matchesPrevious cs k2" by (auto split: if_splits)
  show "stableAt cs k" using m0 m1 m2 k1 k2 by (simp add: stableAt_def)
next
  assume "stableAt cs k"
  then obtain k2 where "k = Suc (Suc k2)" "matchesPrevious cs k" "matchesPrevious cs (Suc k2)"
      "matchesPrevious cs k2"
    by (cases k; cases "k - 1") (auto simp: stableAt_def)
  then show "3 \<le> streak cs (Suc k)" by simp
qed


lemma loop_step:
  assumes "onSchedule p t cs" "500 * i < maxWait"
  shows "waitForFormStability_loop p maxWait (500 * i) prev sc (pollHistory t i) =
           (if cs i = prev \<and> 3 \<le> sc + 1
            then (Inr True, pollHistory t i @ [Evaluate FieldCountScript])
            else waitForFormStability_loop p maxWait (500 * Suc i) (cs i)
                   (if cs i = prev then sc + 1 else 0) (pollHistory t (Suc i)))"
proof -
  from assms(1) have
    a: "field_count_of p (pollHistory t i) = Inr (cs i)"
       "took_ms p (pollHistory t i) (Evaluate FieldCountScript) = 0"
       "rejects p (pollHistory t i @ [Evaluate FieldCountScript]) (WaitForTimeout 500) = None"
       "took_ms p (pollHistory t i @ [Evaluate FieldCountScript]) (WaitForTimeout 500) = 0"
    by (simp_all add: onSchedule_def)
  show ?thesis
    by (subst waitForFormStability_loop.simps)
       (simp add: assms(2) a perform_def pollHistory_Suc add.commute)
qed

lemma loop_timeout:
  "\<not> elapsed < maxWait \<Longrightarrow>
   waitForFormStability_loop p maxWait elapsed prev sc t = (Inr False, t)"
  by (subst waitForFormStability_loop.simps) simp

lemma prev_of: "(if Suc i = 0 then 0 else cs (Suc i - 1)) = cs i"
  by simp

text \<open>The loop from poll \<open>i\<close> on, when the form gets stable at poll \<open>k\<close> first.\<close>

lemma loop_true:
  assumes s: "onSchedule p t cs"
      and k: "stableAt cs k" "500 * k < maxWait"
  shows "i \<le> k \<Longrightarrow> (\<forall>j. i \<le> j \<and> j < k \<longrightarrow> \<not> stableAt cs j) \<Longrightarrow>
         waitForFormStability_loop p maxWait (500 * i) (if i = 0 then 0 else cs (i - 1))
           (streak cs i) (pollHistory t i)
         = (Inr True, pollHistory t k @ [Evaluate FieldCountScript])"
proof (induction "k - i" arbitrary: i)
  case 0
  then have ik: "i = k" by simp
  have "3 \<le> streak cs (Suc k)" using k(1) streak_stable by blast
  then have "cs k = (if k = 0 then 0 else cs (k - 1)) \<and> 3 \<le> streak cs k + 1"
    by (auto simp: matchesPrevious_def split: if_splits)
  then show ?case unfolding ik using loop_step [OF s k(2)] by simp
next
  case (Suc d)
  then have lt: "i < k" and d: "d = k - Suc i" by simp_all
  have i: "500 * i < maxWait" using lt k(2) by simp
  have "\<not> stableAt cs i" using Suc.prems lt by simp
  then have ns: "\<not> 3 \<le> streak cs (Suc i)" using streak_stable by blast
  then have no: "\<not> (cs i = (if i = 0 then 0 else cs (i - 1)) \<and> 3 \<le> streak cs i + 1)"
    by (auto simp: matchesPrevious_def)
  have st: "(if cs i = (if i = 0 then 0 else cs (i - 1)) then streak cs i + 1 else 0) = streak cs (Suc i)"
    by (simp add: matchesPrevious_def)
  have ih: "waitForFormStability_loop p maxWait (500 * Suc i) (if Suc i = 0 then 0 else cs (Suc i - 1))
           (streak cs (Suc i)) (pollHistory t (Suc i))
         = (Inr True, pollHistory t k @ [Evaluate FieldCountScript])"
    using Suc.hyps(1) [OF d] lt Suc.prems by simp
  have "waitForFormStability_loop p maxWait (500 * i) (if i = 0 then 0 else cs (i - 1))
           (streak cs i) (pollHistory t i)
        = waitForFormStability_loop p maxWait (500 * Suc i) (cs i)
            (if cs i = (if i = 0 then 0 else cs (i - 1)) then streak cs i + 1 else 0)
            (pollHistory t (Suc i))"
    using loop_step [OF s i, of "if i = 0 then 0 else cs (i - 1)" "streak cs i"] no
    by (simp only: if_not_P if_False)
  then show ?case using ih unfolding st prev_of by (simp only:)
qed

text \<open>The loop from poll \<open>i\<close> on, when the form does not get stable in time.\<close>

lemma loop_false:
  assumes s: "onSchedule p t cs"
      and n: "\<forall>j. 500 * j < maxWait \<longrightarrow> \<not> stableAt cs j"
  shows "500 * i \<le> maxWait + 499 \<Longrightarrow>
         waitForFormStability_loop p maxWait (500 * i) (if i = 0 then 0 else cs (i - 1))
           (streak cs i) (pollHistory t i)
         = (Inr False, pollHistory t ((maxWait + 499) div 500))"
proof (induction "(maxWait + 499) div 500 - i" arbitrary: i)
  case 0
  then have "i = (maxWait + 499) div 500" by linarith
  moreover have "\<not> 500 * ((maxWait + 499) div 500) < maxWait" by linarith
  ultimately show ?case by (simp add: loop_timeout)
next
  case (Suc d)
  then have lt: "i < (maxWait + 499) div 500" and d: "d = (maxWait + 499) div 500 - Suc i"
    by simp_all
  have i: "500 * i < maxWait" using lt by linarith
  have nx: "500 * Suc i \<le> maxWait + 499" using i by simp
  have "\<not> stableAt cs i" using n i by simp
  then have ns: "\<not> 3 \<le> streak cs (Suc i)" using streak_stable by blast
  then have no: "\<not> (cs i = (if i = 0 then 0 else cs (i - 1)) \<and> 3 \<le> streak cs i + 1)"
    by (auto simp: matchesPrevious_def)
  have st: "(if cs i = (if i = 0 then 0 else cs (i - 1)) then streak cs i + 1 else 0) = streak cs (Suc i)"
    by (simp add: matchesPrevious_def)
  have ih: "waitForFormStability_loop p maxWait (500 * Suc i) (if Suc i = 0 then 0 else cs (Suc i - 1))
           (streak cs (Suc i)) (pollHistory t (Suc i))
         = (Inr False, pollHistory t ((maxWait + 499) div 500))"
    using Suc.hyps(1) [OF d nx] .
  have "waitForFormStability_loop p maxWait (500 * i) (if i = 0 then 0 else cs (i - 1))
           (streak cs i) (pollHistory t i)
        = waitForFormStability_loop p maxWait (500 * Suc i) (cs i)
            (if cs i = (if i = 0 then 0 else cs (i - 1)) then streak cs i + 1 else 0)
            (pollHistory t (Suc i))"
    using loop_step [OF s i, of "if i = 0 then 0 else cs (i - 1)" "streak cs i"] no
    by (simp only: if_not_P if_False)
  then show ?case using ih unfolding st prev_of by (simp only:)
qed

text \<open>
  C6, as the code has it.  On a page on schedule the detector polls every 500
  milliseconds, poll \<open>i\<close> reading \<open>cs i\<close>.  It returns true at the first poll \<open>k\<close> at which
  the last three polls have each read the count of the poll before them (the count before
  the first poll being 0), provided that poll starts before \<open>maxWait\<close> has elapsed, and it
  has then issued \<open>k + 1\<close> polls; when no such poll starts in time it returns false after
  the polls that start before \<open>maxWait\<close>.
\<close>

theorem form_stability_detector:
  assumes "onSchedule p t cs"
  shows "(stableAt cs k \<and> (\<forall>j < k. \<not> stableAt cs j) \<and> 500 * k < maxWait
            \<longrightarrow> waitForFormStability p maxWait t
                  = (Inr True, pollHistory t k @ [Evaluate FieldCountScript]))
         \<and> ((\<forall>j. 500 * j < maxWait \<longrightarrow> \<not> stableAt cs j)
            \<longrightarrow> waitForFormStability p maxWait t
                  = (Inr False, pollHistory t ((maxWait + 499) div 500)))"
proof (intro conjI impI)
  assume a: "stableAt cs k \<and> (\<forall>j < k. \<not> stableAt cs j) \<and> 500 * k < maxWait"
  then show "waitForFormStability p maxWait t = (Inr True, pollHistory t k @ [Evaluate FieldCountScript])"
    using loop_true [OF assms, of k maxWait 0] by (simp add: waitForFormStability_def)
next
  assume "\<forall>j. 500 * j < maxWait \<longrightarrow> \<not> stableAt cs j"
  then show "waitForFormStability p maxWait t = (Inr False, pollHistory t ((maxWait + 499) div 500))"
    using loop_false [OF assms, of maxWait 0] by (simp add: waitForFormStability_def)
qed

lemma fivePage_onSchedule: "onSchedule fivePage [] (\<lambda>i. 5)"
  by (simp add: onSchedule_def fivePage_def blankPage_def)

lemma five_stable: "stableAt (\<lambda>i. 5) k = (3 \<le> k)"
  by (cases k; cases "k - 1"; cases "k - 2") (auto simp: stableAt_def matchesPrevious_def)

theorem form_stability_detector_witness:
  "waitForFormStability fivePage 5000 [] = (Inr True, pollHistory [] 3 @ [Evaluate FieldCountScript])
   \<and> waitForFormStability fivePage 1500 [] = (Inr False, pollHistory [] 3)"
proof -
  have a: "stableAt (\<lambda>i. 5) 3 \<and> (\<forall>j < 3. \<not> stableAt (\<lambda>i. 5) j) \<and> 500 * 3 < (5000::nat)"
    by (simp add: five_stable)
  have b: "\<forall>j. 500 * j < (1500::nat) \<longrightarrow> \<not> stableAt (\<lambda>i. 5) j"
    by (simp add: five_stable)
  have c: "(1500 + 499) div 500 = (3::nat)" by simp
  show ?thesis
    using form_stability_detector [OF fivePage_onSchedule, of 3 5000] a
          form_stability_detector [OF fivePage_onSchedule, of 3 1500] b c
    by (simp only:) simp
qed

text \<open>
  The claim as stated fails on a page that always has five fields.  With 1500
  milliseconds to wait, the three polls at 0, 500 and 1000 milliseconds all read five and
  the result is false; with the default 5000 milliseconds the result is true only at the
  fourth poll.
\<close>

theorem three_identical_polls_counterexample:
  "field_count_of fivePage [] = Inr 5
   \<and> field_count_of fivePage [Evaluate FieldCountScript, WaitForTimeout 500] = Inr 5
   \<and> field_count_of fivePage
        [Evaluate FieldCountScript, WaitForTimeout 500,
         Evaluate FieldCountScript, WaitForTimeout 500] = Inr 5
   \<and> waitForFormStability fivePage 1500 [] =
       (Inr False, [Evaluate FieldCountScript, WaitForTimeout 500, Evaluate FieldCountScript,
                    WaitForTimeout 500, Evaluate FieldCountScript, WaitForTimeout 500])
   \<and> waitForFormStability fivePage 5000 [] =
       (Inr True, [Evaluate FieldCountScript, WaitForTimeout 500, Evaluate FieldCountScript,
                   WaitForTimeout 500, Evaluate FieldCountScript, WaitForTimeout 500,
                   Evaluate FieldCountScript])"
  using five_1500 five_5000 by (simp add: fivePage_def)

subsection \<open>One URL and the batch\<close>

lemma processUrl_try_goto:
  "rejects p t (Goto target) = Some e \<Longrightarrow>
   processUrl_try p u target t = (Inl e, defaultMeta, t @ [Goto target])"
  by (simp add: processUrl_try_def perform_def)

lemma processUrl_try_settle:
  "rejects p t (Goto target) = None \<Longrightarrow>
   rejects p (t @ [Goto target]) (WaitForTimeout 1200) = Some e \<Longrightarrow>
   processUrl_try p u target t = (Inl e, defaultMeta, t @ [Goto target, WaitForTimeout 1200])"
  by (simp add: processUrl_try_def perform_def)

lemma processUrl_try_settled:
  assumes "settled p target t"
  shows "processUrl_try p u target t =
     (case fst (waitForFormStability p 5000 (beforeStability p target t)) of
        Inl e \<Rightarrow> (Inl e, fst (extractMeta p (t @ [Goto target, WaitForTimeout 1200])),
                  snd (waitForFormStability p 5000 (beforeStability p target t)))
      | Inr isStable \<Rightarrow>
          (case rejects p (beforeHold p u target t) (Evaluate (BannerScript holdMessage)) of
             Some e \<Rightarrow> (Inl e, fst (extractMeta p (t @ [Goto target, WaitForTimeout 1200])),
                        beforeHold p u target t @ [Evaluate (BannerScript holdMessage)])
           | None \<Rightarrow>
               (case rejects p (beforeHold p u target t @ [Evaluate (BannerScript holdMessage)])
                       WaitForClose of
                  None \<Rightarrow> (Inr (''submitted'', ''form submitted and tab closed by user''),
                            fst (extractMeta p (t @ [Goto target, WaitForTimeout 1200])),
                            beforeHold p u target t @ [Evaluate (BannerScript holdMessage), WaitForClose])
                | Some e \<Rightarrow> (Inr (''error'', ''error waiting for tab close''),
                              fst (extractMeta p (t @ [Goto target, WaitForTimeout 1200])),
                              beforeHold p u target t @ [Evaluate (BannerScript holdMessage), WaitForClose]))))"
proof -
  obtain m t3 where em: "extractMeta p (t @ [Goto target, WaitForTimeout 1200]) = (m, t3)"
    by fastforce
  obtain w t4 where ws: "waitForFormStability p 5000 t3 = (w, t4)" by fastforce
  have bs: "beforeStability p target t = t3" using em by (simp add: beforeStability_def)
  have bh: "beforeHold p u target t = fillForm p u (debugFormFields p t4)"
    using bs ws by (simp add: beforeHold_def)
  show ?thesis
    using assms
    unfolding bh bs ws em fst_conv snd_conv
    by (simp add: processUrl_try_def settled_def perform_def showHoldBanner_def em ws
          split: sum.splits option.splits)
qed

lemma processUrl_caught:
  "processUrl_try p u target t = (Inl e, m, t') \<Longrightarrow>
   processUrl p u target t =
     ((''error'', if message e = [] then ''unknown error'' else message e), m, t')"
  by (simp add: processUrl_def caught_def)

lemma fold_appendCsv_Cons: "fold appendCsv (r # rows) f = fold appendCsv rows (appendCsv r f)"
  by simp

lemma runUrls_rows:
  "\<exists>rows. map url rows = urls \<and> map resume rows = map (\<lambda>x. resumePath u) urls
      \<and> snd (runUrls p s u urls (t, f)) = fold appendCsv rows f"
proof (induction urls arbitrary: t f)
  case Nil
  show ?case by (intro exI [of _ "[]"]) simp
next
  case (Cons target rest)
  let ?r = "processUrl p u target t"
  let ?row = "resultRow s u target t ?r"
  from Cons [of "snd (snd ?r)" "appendCsv ?row f"] obtain rows where
    rows: "map url rows = rest" "map resume rows = map (\<lambda>x. resumePath u) rest"
          "snd (runUrls p s u rest (snd (snd ?r), appendCsv ?row f)) = fold appendCsv rows (appendCsv ?row f)"
    by blast
  have u: "url ?row = target" "resume ?row = resumePath u"
    by (simp_all add: resultRow_def split: prod.splits)
  show ?case using rows u by (intro exI [of _ "?row # rows"]) (simp add: Let_def)
qed

lemma runBatch_rows:
  "\<exists>rows. map url rows = urls \<and> map resume rows = map (\<lambda>x. resumePath u) urls
      \<and> snd (runBatch p s u urls f) = logSession rows f"
  using runUrls_rows [of urls u p s "[]" "ensureOutFiles f"]
  by (simp add: runBatch_def logSession_def)

lemma resultRow_outcome:
  "(status (resultRow s u target t r), notes' (resultRow s u target t r)) = fst r"
  by (simp add: resultRow_def split: prod.splits)


lemma processUrl_settled:
  assumes "settled p target t"
      and "fst (waitForFormStability p 5000 (beforeStability p target t)) = Inr b"
      and "rejects p (beforeHold p u target t) (Evaluate (BannerScript holdMessage)) = None"
  shows "fst (processUrl p u target t) =
           (case rejects p (beforeHold p u target t @ [Evaluate (BannerScript holdMessage)]) WaitForClose of
              None \<Rightarrow> (''submitted'', ''form submitted and tab closed by user'')
            | Some e \<Rightarrow> (''error'', ''error waiting for tab close''))"
  using assms(2,3)
  by (simp add: processUrl_def processUrl_try_settled [OF assms(1)] split: option.splits)

text \<open>
  C2, as the code has it.  An exception that leaves the \<^verbatim>\<open>try\<close> block of a URL is turned
  into the status \<^verbatim>\<open>error\<close> with its message as notes, \<^verbatim>\<open>unknown error\<close> when the
  message is empty; the navigation, the settle delay, the stability detector and the
  showing of the hold banner throw in this way.  A failing wait for the tab to close is
  caught inside the hold step and recorded as \<^verbatim>\<open>error\<close> with the notes
  \<^verbatim>\<open>error waiting for tab close\<close>; otherwise a URL that gets that far is \<^verbatim>\<open>submitted\<close>,
  whatever the metadata extraction and the filling met.  The row of a URL carries this
  status and these notes, and a batch appends exactly one row for each URL, in order,
  whatever the outcomes.
\<close>

theorem url_failures_are_recorded:
  "(processUrl_try p u target t = (Inl e, m, t')
      \<longrightarrow> processUrl p u target t =
            ((''error'', if message e = [] then ''unknown error'' else message e), m, t'))
   \<and> (rejects p t (Goto target) = Some e \<longrightarrow> fst (processUrl_try p u target t) = Inl e)
   \<and> (rejects p t (Goto target) = None
        \<and> rejects p (t @ [Goto target]) (WaitForTimeout 1200) = Some e
      \<longrightarrow> fst (processUrl_try p u target t) = Inl e)
   \<and> (settled p target t
        \<and> fst (waitForFormStability p 5000 (beforeStability p target t)) = Inl e
      \<longrightarrow> fst (processUrl_try p u target t) = Inl e)
   \<and> (settled p target t
        \<and> fst (waitForFormStability p 5000 (beforeStability p target t)) = Inr b
        \<and> rejects p (beforeHold p u target t) (Evaluate (BannerScript holdMessage)) = Some e
      \<longrightarrow> fst (processUrl_try p u target t) = Inl e)
   \<and> (settled p target t
        \<and> fst (waitForFormStability p 5000 (beforeStability p target t)) = Inr b
        \<and> rejects p (beforeHold p u target t) (Evaluate (BannerScript holdMessage)) = None
        \<and> rejects p (beforeHold p u target t @ [Evaluate (BannerScript holdMessage)]) WaitForClose = Some e
      \<longrightarrow> fst (processUrl p u target t) = (''error'', ''error waiting for tab close''))
   \<and> (settled p target t
        \<and> fst (waitForFormStability p 5000 (beforeStability p target t)) = Inr b
        \<and> rejects p (beforeHold p u target t) (Evaluate (BannerScript holdMessage)) = None
        \<and> rejects p (beforeHold p u target t @ [Evaluate (BannerScript holdMessage)]) WaitForClose = None
      \<longrightarrow> fst (processUrl p u target t) = (''submitted'', ''form submitted and tab closed by user''))
   \<and> (status (resultRow s u target t (processUrl p u target t)),
       notes' (resultRow s u target t (processUrl p u target t))) = fst (processUrl p u target t)
   \<and> (\<exists>rows. map url rows = urls \<and> map resume rows = map (\<lambda>x. resumePath u) urls
          \<and> snd (runBatch p s u urls f) = logSession rows f)"
proof -
  have 1: "processUrl_try p u target t = (Inl e, m, t')
      \<longrightarrow> processUrl p u target t =
            ((''error'', if message e = [] then ''unknown error'' else message e), m, t')"
    using processUrl_caught by blast
  have 2: "rejects p t (Goto target) = Some e \<longrightarrow> fst (processUrl_try p u target t) = Inl e"
    by (simp add: processUrl_try_goto)
  have 3: "rejects p t (Goto target) = None
        \<and> rejects p (t @ [Goto target]) (WaitForTimeout 1200) = Some e
      \<longrightarrow> fst (processUrl_try p u target t) = Inl e"
    by (simp add: processUrl_try_settle)
  have 4: "settled p target t
        \<and> fst (waitForFormStability p 5000 (beforeStability p target t)) = Inl e
      \<longrightarrow> fst (processUrl_try p u target t) = Inl e"
    by (simp add: processUrl_try_settled)
  have 5: "settled p target t
        \<and> fst (waitForFormStability p 5000 (beforeStability p target t)) = Inr b
        \<and> rejects p (beforeHold p u target t) (Evaluate (BannerScript holdMessage)) = Some e
      \<longrightarrow> fst (processUrl_try p u target t) = Inl e"
    by (simp add: processUrl_try_settled)
  have 6: "settled p target t
        \<and> fst (waitForFormStability p 5000 (beforeStability p target t)) = Inr b
        \<and> rejects p (beforeHold p u target t) (Evaluate (BannerScript holdMessage)) = None
        \<and> rejects p (beforeHold p u target t @ [Evaluate (BannerScript holdMessage)]) WaitForClose = Some e
      \<longrightarrow> fst (processUrl p u target t) = (''error'', ''error waiting for tab close'')"
    by (simp add: processUrl_settled)
  have 7: "settled p target t
        \<and> fst (waitForFormStability p 5000 (beforeStability p target t)) = Inr b
        \<and> rejects p (beforeHold p u target t) (Evaluate (BannerScript holdMessage)) = None
        \<and> rejects p (beforeHold p u target t @ [Evaluate (BannerScript holdMessage)]) WaitForClose = None
      \<longrightarrow> fst (processUrl p u target t) = (''submitted'', ''form submitted and tab closed by user'')"
    by (simp add: processUrl_settled)
  show ?thesis using 1 2 3 4 5 6 7 resultRow_outcome runBatch_rows by (intro conjI) blast+
qed

lemma quiet_stability:
  assumes "\<And>h. field_count_of p h = Inr 0" "\<And>h. rejects p h (WaitForTimeout 500) = None"
          "\<And>h c. took_ms p h c = 0"
  shows "fst (waitForFormStability p 5000 t) = Inr True"
  by (simp add: waitForFormStability_def waitForFormStability_loop.simps assms perform_def)

theorem url_failures_are_recorded_witness:
  "fst (processUrl downPage minimalUser ''https://a.example/job'' [])
     = (''error'', ''net::ERR_NAME_NOT_RESOLVED'')
   \<and> fst (processUrl closeFailsPage minimalUser ''https://a.example/job'' [])
     = (''error'', ''error waiting for tab close'')
   \<and> fst (processUrl blankPage minimalUser ''https://a.example/job'' [])
     = (''submitted'', ''form submitted and tab closed by user'')"
proof -
  let ?a = "''https://a.example/job''"
  let ?e = "Error ''net::ERR_NAME_NOT_RESOLVED''"
  have g: "rejects downPage [] (Goto ?a) = Some ?e" by (simp add: downPage_def)
  have d1: "fst (processUrl_try downPage minimalUser ?a []) = Inl ?e"
    using url_failures_are_recorded [where p = downPage and t = "[]" and target = ?a and e = ?e
                                       and u = minimalUser] g by blast
  have d2: "processUrl downPage minimalUser ?a [] =
              ((''error'', ''net::ERR_NAME_NOT_RESOLVED''),
               fst (snd (processUrl_try downPage minimalUser ?a [])),
               snd (snd (processUrl_try downPage minimalUser ?a [])))"
    using url_failures_are_recorded [where p = downPage and t = "[]" and target = ?a and e = ?e
            and u = minimalUser and m = "fst (snd (processUrl_try downPage minimalUser ?a []))"
            and t' = "snd (snd (processUrl_try downPage minimalUser ?a []))"] d1
    by (simp add: prod_eq_iff)
  have cs: "settled closeFailsPage ?a []" "settled blankPage ?a []"
    by (simp_all add: settled_def closeFailsPage_def blankPage_def)
  have cw: "fst (waitForFormStability closeFailsPage 5000 (beforeStability closeFailsPage ?a [])) = Inr True"
           "fst (waitForFormStability blankPage 5000 (beforeStability blankPage ?a [])) = Inr True"
    by (rule quiet_stability; simp add: closeFailsPage_def blankPage_def)+
  have cb: "rejects closeFailsPage h (Evaluate (BannerScript holdMessage)) = None"
           "rejects closeFailsPage h WaitForClose = Some (Error ''Target crashed'')"
           "rejects blankPage h c = None" for h c
    by (simp_all add: closeFailsPage_def blankPage_def)
  have c1: "fst (processUrl closeFailsPage minimalUser ?a []) = (''error'', ''error waiting for tab close'')"
    using url_failures_are_recorded [where p = closeFailsPage and t = "[]" and target = ?a
            and u = minimalUser and b = True and e = "Error ''Target crashed''"] cs cw cb by blast
  have b1: "fst (processUrl blankPage minimalUser ?a []) = (''submitted'', ''form submitted and tab closed by user'')"
    using url_failures_are_recorded [where p = blankPage and t = "[]" and target = ?a
            and u = minimalUser and b = True] cs cw cb by blast
  show ?thesis using d2 c1 b1 by simp
qed

text \<open>
  The claim as stated fails in three ways.  When the wait for the tab to close throws
  \<^verbatim>\<open>Target crashed\<close>, the notes are \<^verbatim>\<open>error waiting for tab close\<close>, not the message.  When
  the metadata script throws, the URL is still \<^verbatim>\<open>submitted\<close>, with the default metadata.
  An exception with an empty message leaves the notes \<^verbatim>\<open>unknown error\<close>.
\<close>

theorem url_exceptions_counterexample:
  "rejects closeFailsPage
     (beforeHold closeFailsPage minimalUser ''https://a.example/job'' [] @ [Evaluate (BannerScript holdMessage)])
     WaitForClose = Some (Error ''Target crashed'')
   \<and> fst (processUrl closeFailsPage minimalUser ''https://a.example/job'' [])
       = (''error'', ''error waiting for tab close'')
   \<and> document_of metaFailsPage [Goto ''https://a.example/job'', WaitForTimeout 1200]
       = Inl (Error ''Execution context was destroyed'')
   \<and> processUrl metaFailsPage minimalUser ''https://a.example/job'' []
       = ((''submitted'', ''form submitted and tab closed by user''), defaultMeta,
          beforeHold metaFailsPage minimalUser ''https://a.example/job'' []
            @ [Evaluate (BannerScript holdMessage), WaitForClose])
   \<and> caught (Error []) = (''error'', ''unknown error'')"
proof -
  let ?a = "''https://a.example/job''"
  have cs: "settled closeFailsPage ?a []" "settled metaFailsPage ?a []"
    by (simp_all add: settled_def closeFailsPage_def metaFailsPage_def blankPage_def)
  have cw: "fst (waitForFormStability closeFailsPage 5000 (beforeStability closeFailsPage ?a [])) = Inr True"
           "fst (waitForFormStability metaFailsPage 5000 (beforeStability metaFailsPage ?a [])) = Inr True"
    by (rule quiet_stability; simp add: closeFailsPage_def metaFailsPage_def blankPage_def)+
  have cb: "rejects closeFailsPage h (Evaluate (BannerScript holdMessage)) = None"
           "rejects closeFailsPage h WaitForClose = Some (Error ''Target crashed'')"
           "rejects metaFailsPage h c = None" for h c
    by (simp_all add: closeFailsPage_def metaFailsPage_def blankPage_def)
  have c1: "fst (processUrl closeFailsPage minimalUser ?a []) = (''error'', ''error waiting for tab close'')"
    using processUrl_settled [OF cs(1) cw(1) cb(1)] by (simp add: cb)
  have md: "document_of metaFailsPage h = Inl (Error ''Execution context was destroyed'')" for h
    by (simp add: metaFailsPage_def)
  have mm: "fst (extractMeta metaFailsPage h) = defaultMeta" for h
    by (simp add: extractMeta_def extractMeta_try_def md)
  have m1: "processUrl metaFailsPage minimalUser ?a []
       = ((''submitted'', ''form submitted and tab closed by user''), defaultMeta,
          beforeHold metaFailsPage minimalUser ?a [] @ [Evaluate (BannerScript holdMessage), WaitForClose])"
    by (simp add: processUrl_def processUrl_try_settled [OF cs(2)] cw cb mm)
  have k: "caught (Error []) = (''error'', ''unknown error'')" by (simp add: caught_def)
  show ?thesis using cb c1 md m1 k by simp
qed

end
